theory Spec2Isabelle
  imports Complex_Main "HOL-Library.AList" "HOL-Library.Char_ord" "HOL-Library.List_Lexorder"
begin

chapter \<open>Model of the code\<close>

section \<open>Data model\<close>

text \<open>
  Byte strings and text strings are both lists of 8-bit characters. A Python \<open>dict\<close> is
  an association list in insertion order: \<open>d[k] = v\<close> is \<^const>\<open>AList.update\<close> (replace in
  place, or append when the key is new), \<open>del d[k]\<close> is \<^const>\<open>AList.delete\<close>, \<open>k in d\<close> is
  \<open>map_of d k \<noteq> None\<close>. A dict never holds a key twice, so the inputs of the theorems
  below are association lists with distinct keys.
\<close>

type_synonym bytes = string

text \<open>
  The exceptions of the code. \<open>URLError\<close> and \<open>HTTPError\<close> are those of \<open>urllib\<close> (the second
  a subclass of the first), \<open>ClientError\<close> is a transport error of \<open>aiohttp\<close> and
  \<open>ClientResponseError\<close> what its \<open>raise_for_status\<close> raises.
\<close>

datatype py_error =
  KeyError | ZeroDivisionError | ValueError | IndexError | OSError
  | URLError | HTTPError | ClientError | ClientResponseError | ZstdError

text \<open>One entry of a bundle's member map: \<open>{"hash": h, "length": n, "blockOffset": o}\<close>.\<close>

record member =
  hash :: string
  length_bytes :: nat
  blockOffset :: nat

text \<open>
  A bundle's member map \<open>{"0": m0, "1": m1, ...}\<close>. The code only iterates over the map and
  reads each value, so the map is kept as the list of its values in iteration order.
\<close>

type_synonym member_map = "member list"

record file_record =
  file_hash :: string
  blocks :: "string list"

record manifest =
  files :: "(string \<times> file_record) list"
  bundles :: "(string \<times> member_map) list"

section \<open>Planner (patcher/patch\_data.py)\<close>

record bundle_info =
  percentNeeded :: real
  blocksNeeded :: "string list"

text \<open>
  Python's true division of two ints raises on a zero divisor. The quotient of two small
  naturals is compared with \<open>0.5\<close> only, where the rounded float and the exact quotient
  agree, so the quotient is kept exact.
\<close>

definition py_truediv :: "nat \<Rightarrow> nat \<Rightarrow> py_error + real" where
  "py_truediv a b = (if b = 0 then Inl ZeroDivisionError else Inr (real a / real b))"

text \<open>The inner loop of \<open>_analyze_bundles\<close> over the members of one bundle.\<close>

fun scan_members :: "string set \<Rightarrow> member list \<Rightarrow> nat \<Rightarrow> string list \<Rightarrow> nat \<times> string list" where
  "scan_members missing_blocks [] bundle_size blocks_needed = (bundle_size, blocks_needed)"
| "scan_members missing_blocks (m # ms) bundle_size blocks_needed =
     scan_members missing_blocks ms (bundle_size + 1)
       (if hash m \<in> missing_blocks then blocks_needed @ [hash m] else blocks_needed)"

text \<open>The outer loop of \<open>_analyze_bundles\<close>, with \<open>bundle_info\<close> as accumulator.\<close>

fun analyze_bundles_loop ::
  "(string \<times> member_map) list \<Rightarrow> string set \<Rightarrow> (string \<times> bundle_info) list
    \<Rightarrow> py_error + (string \<times> bundle_info) list" where
  "analyze_bundles_loop [] missing_blocks info = Inr info"
| "analyze_bundles_loop ((b, ms) # rest) missing_blocks info =
     (case scan_members missing_blocks ms 0 [] of
        (bundle_size, blocks_needed) \<Rightarrow>
          if bundle_size > 0 then
            (case py_truediv (length blocks_needed) bundle_size of
               Inl e \<Rightarrow> Inl e
             | Inr p \<Rightarrow>
                 analyze_bundles_loop rest missing_blocks
                   (AList.update b \<lparr>percentNeeded = p, blocksNeeded = blocks_needed\<rparr> info))
          else analyze_bundles_loop rest missing_blocks info)"

definition analyze_bundles ::
  "manifest \<Rightarrow> string set \<Rightarrow> py_error + (string \<times> bundle_info) list" where
  "analyze_bundles new_build missing_blocks =
     analyze_bundles_loop (bundles new_build) missing_blocks []"

text \<open>\<open>remaining_blocks.discard(block)\<close> for every block of a list.\<close>

fun discard_all :: "string list \<Rightarrow> string set \<Rightarrow> string set" where
  "discard_all [] remaining_blocks = remaining_blocks"
| "discard_all (block # rest) remaining_blocks = discard_all rest (remaining_blocks - {block})"

fun bundles_to_download_loop ::
  "(string \<times> bundle_info) list \<Rightarrow> (string \<times> string list) list \<Rightarrow> string set
    \<Rightarrow> (string \<times> string list) list \<times> string set" where
  "bundles_to_download_loop [] to_download remaining_blocks = (to_download, remaining_blocks)"
| "bundles_to_download_loop ((b, info) # rest) to_download remaining_blocks =
     (if percentNeeded info \<ge> 1 / 2 then
        bundles_to_download_loop rest
          (AList.update b (blocksNeeded info) to_download)
          (discard_all (blocksNeeded info) remaining_blocks)
      else bundles_to_download_loop rest to_download remaining_blocks)"

definition bundles_to_download ::
  "(string \<times> bundle_info) list \<Rightarrow> string set \<Rightarrow> (string \<times> string list) list \<times> string set" where
  "bundles_to_download info missing_blocks = bundles_to_download_loop info [] missing_blocks"

text \<open>
  \<open>find_bundles_and_blocks_to_fetch\<close> with \<open>return_mapping=True\<close>, as \<open>Patcher.patch\<close> calls
  it: the plan maps each scheduled bundle to its needed hashes, next to the residual set.
\<close>

definition find_bundles_and_blocks_to_fetch ::
  "manifest \<Rightarrow> string set \<Rightarrow> py_error + ((string \<times> string list) list \<times> string set)" where
  "find_bundles_and_blocks_to_fetch new_build missing_blocks =
     (case analyze_bundles new_build missing_blocks of
        Inl e \<Rightarrow> Inl e
      | Inr info \<Rightarrow> Inr (bundles_to_download info missing_blocks))"

text \<open>The needed members of a bundle, in member order.\<close>

definition needed_of :: "string set \<Rightarrow> member_map \<Rightarrow> string list" where
  "needed_of missing_blocks ms = filter (\<lambda>h. h \<in> missing_blocks) (map hash ms)"

text \<open>The analysis entry of a non-empty bundle, written with \<open>needed_of\<close>.\<close>

definition info_of :: "string set \<Rightarrow> member_map \<Rightarrow> bundle_info" where
  "info_of missing_blocks ms =
     \<lparr>percentNeeded = real (length (needed_of missing_blocks ms)) / real (length ms),
      blocksNeeded = needed_of missing_blocks ms\<rparr>"

text \<open>The bundles the planner schedules: non-empty, with at least half of the members needed.\<close>

definition scheduled :: "manifest \<Rightarrow> string set \<Rightarrow> (string \<times> member_map) list" where
  "scheduled nb missing =
     filter (\<lambda>(b, ms). ms \<noteq> [] \<and>
               real (length (needed_of missing ms)) / real (length ms) \<ge> 1 / 2) (bundles nb)"

section \<open>Local state of an installation\<close>

text \<open>
  The install tree as \<open>os.walk\<close> lists it: the regular files under \<open>install/\<close>, keyed by
  their path relative to it. \<open>readable\<close> tells whether \<open>open(path, 'rb')\<close> succeeds;
  \<open>mtime\<close> is the text \<open>str(os.path.getmtime(path))\<close> (the float is kept as its rendering).
\<close>

record local_file =
  readable :: bool
  content :: bytes
  mtime :: string

type_synonym install_tree = "(string \<times> local_file) list"

text \<open>A changelog entry \<open>{"size": s, "lastMod": t}\<close>, both stringified.\<close>

record metadata =
  size :: string
  lastMod :: string

type_synonym changelog = "(string \<times> metadata) list"

text \<open>Python's \<open>str\<close> of a non-negative int: its decimal digits.\<close>

fun digit_char :: "nat \<Rightarrow> char" where
  "digit_char d = char_of (48 + d)"

function str_nat :: "nat \<Rightarrow> string" where
  "str_nat n = (if n < 10 then [digit_char n] else str_nat (n div 10) @ [digit_char (n mod 10)])"
  by pat_completeness auto
termination
  by (relation "measure (\<lambda>n. n)") auto

declare str_nat.simps [simp del]

section \<open>Block generator and local scan (patcher/block\_generator.py, patcher/\_\_init\_\_.py)\<close>

text \<open>
  \<open>iter(lambda: file_handle.read(8192), b'')\<close>: the chunks of at most 8192 bytes, up to
  the first empty read.
\<close>

function read_chunks :: "bytes \<Rightarrow> bytes list" where
  "read_chunks data =
     (if take 8192 data = [] then [] else take 8192 data # read_chunks (drop 8192 data))"
  by pat_completeness auto
termination
  by (relation "measure length") auto

declare read_chunks.simps [simp del]

text \<open>
  \<open>_hash_file\<close>: a SHA-256 hasher is fed the chunks in order and asked for its hex digest,
  which is the digest of the bytes fed so far. SHA-256 itself is a parameter.
\<close>

definition hash_file :: "(bytes \<Rightarrow> string) \<Rightarrow> bytes \<Rightarrow> string" where
  "hash_file sha256 data = sha256 (fold (\<lambda>chunk fed. fed @ chunk) (read_chunks data) [])"

text \<open>
  \<open>Patcher._get_local_file_hashes\<close>: every file of the tree that can be opened gets its
  hash recorded; a file whose \<open>open\<close> raises \<open>IOError\<close> or \<open>OSError\<close> is skipped.
\<close>

fun get_local_file_hashes_loop ::
  "(bytes \<Rightarrow> string) \<Rightarrow> install_tree \<Rightarrow> (string \<times> string) list \<Rightarrow> (string \<times> string) list" where
  "get_local_file_hashes_loop sha256 [] local_files = local_files"
| "get_local_file_hashes_loop sha256 ((rel_path, f) # rest) local_files =
     (if readable f then
        get_local_file_hashes_loop sha256 rest
          (AList.update rel_path (hash_file sha256 (content f)) local_files)
      else get_local_file_hashes_loop sha256 rest local_files)"

definition get_local_file_hashes :: "(bytes \<Rightarrow> string) \<Rightarrow> install_tree \<Rightarrow> (string \<times> string) list" where
  "get_local_file_hashes sha256 tree = get_local_file_hashes_loop sha256 tree []"

section \<open>Changelog (patcher/change\_log.py)\<close>

definition get_file_metadata :: "local_file \<Rightarrow> metadata" where
  "get_file_metadata f = \<lparr>size = str_nat (length (content f)), lastMod = mtime f\<rparr>"

text \<open>
  \<open>ChangeLog.is_valid\<close>: false when the file does not exist, false when the changelog has
  no entry for it (the \<open>KeyError\<close> is caught), else the comparison of the stored strings
  with the current ones.
\<close>

definition is_valid :: "install_tree \<Rightarrow> changelog \<Rightarrow> string \<Rightarrow> bool" where
  "is_valid tree data filename =
     (case map_of tree filename of
        None \<Rightarrow> False
      | Some f \<Rightarrow>
          (case map_of data filename of
             None \<Rightarrow> False
           | Some stored_metadata \<Rightarrow>
               size stored_metadata = size (get_file_metadata f) \<and>
               lastMod stored_metadata = lastMod (get_file_metadata f)))"

section \<open>Files to patch (patcher/patch\_data.py)\<close>

text \<open>
  \<open>PatchData.get_files_to_patch\<close>. The loop runs over the keys of \<open>new_build["files"]\<close>
  and reads the record of each key back from the same dict, so it is a loop over the
  items. \<open>change_log_is_valid\<close> is the method \<open>change_log.is_valid\<close>.
\<close>

fun get_files_to_patch_loop ::
  "(string \<times> file_record) list \<Rightarrow> (string \<times> string) list \<Rightarrow> (string \<Rightarrow> bool)
    \<Rightarrow> string list \<Rightarrow> string list" where
  "get_files_to_patch_loop [] local_files change_log_is_valid files_to_patch = files_to_patch"
| "get_files_to_patch_loop ((filename, r) # rest) local_files change_log_is_valid files_to_patch =
     get_files_to_patch_loop rest local_files change_log_is_valid
       (if map_of local_files filename = None \<or>
           Some (file_hash r) \<noteq> map_of local_files filename \<or>
           \<not> change_log_is_valid filename
        then files_to_patch @ [filename] else files_to_patch)"

definition get_files_to_patch ::
  "manifest \<Rightarrow> (string \<times> string) list \<Rightarrow> (string \<Rightarrow> bool) \<Rightarrow> string list" where
  "get_files_to_patch new_build local_files change_log_is_valid =
     get_files_to_patch_loop (files new_build) local_files change_log_is_valid []"

text \<open>
  The hash the local scan derives for an installed file: none when the file is absent or
  cannot be opened.
\<close>

definition local_hash :: "(bytes \<Rightarrow> string) \<Rightarrow> install_tree \<Rightarrow> string \<Rightarrow> string option" where
  "local_hash sha256 tree filename =
     (case map_of tree filename of
        None \<Rightarrow> None
      | Some f \<Rightarrow> if readable f then Some (hash_file sha256 (content f)) else None)"

section \<open>Applier (patcher/file\_patcher.py)\<close>

text \<open>
  The loop \<open>for block in blocks: await f.write(local_blocks[block])\<close>. A hash that is not
  in the pool raises \<open>KeyError\<close>; \<open>write_ok i\<close> tells whether the operating system accepts
  the \<open>i\<close>-th write (otherwise \<open>OSError\<close>). The bytes written so far stay in the file.
\<close>

fun write_blocks ::
  "string list \<Rightarrow> (string \<times> bytes) list \<Rightarrow> (nat \<Rightarrow> bool) \<Rightarrow> nat \<Rightarrow> bytes
    \<Rightarrow> py_error option \<times> bytes" where
  "write_blocks [] local_blocks write_ok i written = (None, written)"
| "write_blocks (block # rest) local_blocks write_ok i written =
     (case map_of local_blocks block of
        None \<Rightarrow> (Some KeyError, written)
      | Some data \<Rightarrow>
          if write_ok i then write_blocks rest local_blocks write_ok (i + 1) (written @ data)
          else (Some OSError, written))"

text \<open>The \<open>finally\<close> clause: \<open>if os.path.exists(temp_path): os.remove(temp_path)\<close>.\<close>

definition remove_if_exists :: "string \<Rightarrow> install_tree \<Rightarrow> install_tree" where
  "remove_if_exists path tree = (if map_of tree path \<noteq> None then AList.delete path tree else tree)"

text \<open>
  \<open>os.replace(src, dst)\<close> on regular files: \<open>dst\<close> becomes the file \<open>src\<close> was; a missing
  \<open>src\<close> raises \<open>FileNotFoundError\<close>, an \<open>OSError\<close>.
\<close>

definition os_replace :: "string \<Rightarrow> string \<Rightarrow> install_tree \<Rightarrow> py_error + install_tree" where
  "os_replace src dst tree =
     (case map_of tree src of
        None \<Rightarrow> Inl OSError
      | Some f \<Rightarrow> Inr (if src = dst then tree else AList.update dst f (AList.delete src tree)))"

text \<open>
  \<open>FilePatcher.apply_patch_to_file\<close>. \<open>temp_path\<close> is the path \<open>tempfile.mkstemp\<close> returns
  (relative to the install directory, like the keys of the tree) and \<open>now\<close> the modification
  time the written file gets. The result is the exception that leaves the function, if
  any, and the tree afterwards. Creating the directory, opening the temporary file and
  removing an existing regular file are taken to succeed.
\<close>

definition apply_patch_to_file ::
  "string \<Rightarrow> string \<Rightarrow> (nat \<Rightarrow> bool) \<Rightarrow> string \<Rightarrow> manifest \<Rightarrow> (string \<times> bytes) list
    \<Rightarrow> install_tree \<Rightarrow> py_error option \<times> install_tree" where
  "apply_patch_to_file now temp_path write_ok filename new_build local_blocks tree =
     (let tree1 = AList.update temp_path \<lparr>readable = True, content = [], mtime = now\<rparr> tree in
      case map_of (files new_build) filename of
        None \<Rightarrow> (Some KeyError, remove_if_exists temp_path tree1)
      | Some r \<Rightarrow>
          (case write_blocks (blocks r) local_blocks write_ok 0 [] of
             (Some e, written) \<Rightarrow>
               (Some e,
                remove_if_exists temp_path
                  (AList.update temp_path \<lparr>readable = True, content = written, mtime = now\<rparr> tree1))
           | (None, written) \<Rightarrow>
               (let tree2 = AList.update temp_path
                              \<lparr>readable = True, content = written, mtime = now\<rparr> tree1;
                    final_path = filename;
                    tree3 = (if map_of tree2 final_path \<noteq> None
                             then AList.delete final_path tree2 else tree2)
                in case os_replace temp_path final_path tree3 of
                     Inl e \<Rightarrow> (Some e, remove_if_exists temp_path tree3)
                   | Inr tree4 \<Rightarrow> (None, remove_if_exists temp_path tree4))))"

section \<open>Cleaner (patcher/cleaner.py) and the changelog updates it makes\<close>

text \<open>Python's \<open>s.startswith(p)\<close> and \<open>sub in s\<close> on strings.\<close>

definition startswith :: "string \<Rightarrow> string \<Rightarrow> bool" where
  "startswith s p = (take (length p) s = p)"

fun str_contains :: "string \<Rightarrow> string \<Rightarrow> bool" where
  "str_contains sub [] = (sub = [])"
| "str_contains sub (c # cs) = (startswith (c # cs) sub \<or> str_contains sub cs)"

text \<open>
  \<open>ChangeLog.update_metadata\<close>: nothing for a name containing \<open>.DS_Store\<close>, else the
  entry is set to the current metadata of the file. For a file that does not exist
  \<open>os.path.getsize\<close> raises; the cleaner's worker ends there and the entry stays.
\<close>

definition update_metadata :: "install_tree \<Rightarrow> string \<Rightarrow> changelog \<Rightarrow> changelog" where
  "update_metadata tree filename data =
     (if str_contains ''.DS_Store'' filename then data
      else (case map_of tree filename of
              None \<Rightarrow> data
            | Some f \<Rightarrow> AList.update filename (get_file_metadata f) data))"

text \<open>\<open>ChangeLog.remove_file\<close>: \<open>self._data.pop(filename, None)\<close>.\<close>

definition remove_file :: "string \<Rightarrow> changelog \<Rightarrow> changelog" where
  "remove_file filename data = AList.delete filename data"

text \<open>
  \<open>Cleaner._cleanup_file\<close> on the file with relative path \<open>rel_path\<close>; the state is the
  install tree with the changelog. \<open>os.remove\<close> of a file that is already gone is ignored.
\<close>

definition cleanup_file ::
  "manifest \<Rightarrow> string \<Rightarrow> install_tree \<times> changelog \<Rightarrow> install_tree \<times> changelog" where
  "cleanup_file new_build rel_path st =
     (case st of (tree, data) \<Rightarrow>
        if map_of (files new_build) rel_path = None then
          (if rel_path = ''.DS_Store'' then (tree, data)
           else (AList.delete rel_path tree, remove_file rel_path data))
        else (tree, update_metadata tree rel_path data))"

text \<open>
  \<open>Cleaner.run\<close>: every file that \<open>os.walk\<close> lists is handed to \<open>_cleanup_file\<close>. The
  workers of the thread pool each handle one path; they are run here one after the other,
  in the order of the walk. Directories are not part of the tree, so the removal of empty
  directories leaves the state as it is.
\<close>

definition cleaner_run :: "manifest \<Rightarrow> install_tree \<times> changelog \<Rightarrow> install_tree \<times> changelog" where
  "cleaner_run new_build st = fold (cleanup_file new_build) (map fst (fst st)) st"

section \<open>Dictionary training (util.py, create/blockBuilder.py)\<close>

text \<open>
  \<open>util.load_or_train_dict\<close>. \<open>dict_file\<close> is the content of the file at \<open>dict_path\<close>, if
  it exists; the result is the dictionary and the file afterwards. \<open>zstd.train_dictionary\<close>
  and \<open>random.sample\<close> are parameters: the sample that \<open>random.sample population k\<close>
  draws is left open.
\<close>

definition load_or_train_dict ::
  "(nat \<Rightarrow> bytes list \<Rightarrow> bytes) \<Rightarrow> (bytes list \<Rightarrow> nat \<Rightarrow> bytes list) \<Rightarrow> bytes option
    \<Rightarrow> bytes list \<Rightarrow> nat \<Rightarrow> nat option \<Rightarrow> bytes \<times> bytes option" where
  "load_or_train_dict train_dictionary random_sample dict_file uncompressed_data block_size samples =
     (case dict_file of
        Some d \<Rightarrow> (d, Some d)
      | None \<Rightarrow>
          (let training_sample =
                 (case samples of
                    Some n \<Rightarrow>
                      if length uncompressed_data > n then random_sample uncompressed_data n
                      else uncompressed_data
                  | None \<Rightarrow> uncompressed_data);
               dict_bytes = train_dictionary block_size training_sample
           in (dict_bytes, Some dict_bytes)))"

text \<open>
  The dictionary part of \<open>BlockBuilder.writeBlockFiles\<close>: with \<open>compress\<close> the dictionary
  is loaded or trained, with \<open>samples=2000 if not regenDict else None\<close>; without it neither
  happens.
\<close>

definition writeBlockFiles_dict ::
  "(nat \<Rightarrow> bytes list \<Rightarrow> bytes) \<Rightarrow> (bytes list \<Rightarrow> nat \<Rightarrow> bytes list) \<Rightarrow> bytes option
    \<Rightarrow> bytes list \<Rightarrow> nat \<Rightarrow> bool \<Rightarrow> bool \<Rightarrow> bytes option \<times> bytes option" where
  "writeBlockFiles_dict train_dictionary random_sample dict_file uncompressed_block_data blockSize
     compress regenDict =
     (if compress then
        (case load_or_train_dict train_dictionary random_sample dict_file
                uncompressed_block_data blockSize (if \<not> regenDict then Some 2000 else None) of
           (dict_data, dict_file') \<Rightarrow> (Some dict_data, dict_file'))
      else (None, dict_file))"

section \<open>Python string and bytes operations\<close>

definition CR :: char where "CR = CHR 0x0D"
definition LF :: char where "LF = CHR 0x0A"
definition CRLF :: string where "CRLF = [CR, LF]"

text \<open>
  \<open>s.split(sep)\<close> for a non-empty separator: the pieces between the occurrences of \<open>sep\<close>,
  found from left to right without overlap. \<open>skip\<close> counts the characters of a separator
  just found that are still to be passed over, \<open>cur\<close> is the piece being collected.
\<close>

fun split_aux :: "string \<Rightarrow> nat \<Rightarrow> string \<Rightarrow> string \<Rightarrow> string list" where
  "split_aux sep skip cur [] = [cur]"
| "split_aux sep skip cur (c # cs) =
     (if skip > 0 then split_aux sep (skip - 1) cur cs
      else if startswith (c # cs) sep then cur # split_aux sep (length sep - 1) [] cs
      else split_aux sep 0 (cur @ [c]) cs)"

definition py_split :: "string \<Rightarrow> string \<Rightarrow> string list" where
  "py_split s sep = split_aux sep 0 [] s"

text \<open>\<open>s.find(sub)\<close>: the index of the first occurrence, or \<open>-1\<close>.\<close>

fun find_aux :: "string \<Rightarrow> string \<Rightarrow> nat \<Rightarrow> int" where
  "find_aux sub [] i = (if sub = [] then int i else - 1)"
| "find_aux sub (c # cs) i = (if startswith (c # cs) sub then int i else find_aux sub cs (i + 1))"

definition py_find :: "string \<Rightarrow> string \<Rightarrow> int" where
  "py_find s sub = find_aux sub s 0"

text \<open>\<open>s.rstrip(chars)\<close>, \<open>s.lstrip(chars)\<close>, \<open>s.strip(chars)\<close>: strip every character of \<open>chars\<close>.\<close>

definition py_lstrip :: "string \<Rightarrow> string \<Rightarrow> string" where
  "py_lstrip s chars = dropWhile (\<lambda>c. c \<in> set chars) s"

definition py_rstrip :: "string \<Rightarrow> string \<Rightarrow> string" where
  "py_rstrip s chars = rev (dropWhile (\<lambda>c. c \<in> set chars) (rev s))"

definition py_strip :: "string \<Rightarrow> string \<Rightarrow> string" where
  "py_strip s chars = py_rstrip (py_lstrip s chars) chars"

text \<open>\<open>xs[i]\<close> for \<open>i \<ge> 0\<close>, raising \<open>IndexError\<close> out of range.\<close>

definition py_index :: "'a list \<Rightarrow> nat \<Rightarrow> py_error + 'a" where
  "py_index xs i = (if i < length xs then Inr (xs ! i) else Inl IndexError)"

text \<open>
  \<open>int(s)\<close> on a string: white space around the number and one sign are accepted, then
  decimal digits are required. (Python also accepts single underscores between digits;
  such a string is a \<open>ValueError\<close> here.)
\<close>

definition is_digit :: "char \<Rightarrow> bool" where
  "is_digit c = ((48 :: nat) \<le> of_char c \<and> of_char c \<le> (57 :: nat))"

definition digits_value :: "string \<Rightarrow> nat" where
  "digits_value ds = fold (\<lambda>c n. 10 * n + (of_char c - 48)) ds 0"

definition whitespace :: string where
  "whitespace = [CHR '' '', CHR 0x09, CHR 0x0A, CHR 0x0B, CHR 0x0C, CHR 0x0D]"

definition py_int :: "string \<Rightarrow> py_error + int" where
  "py_int s =
     (let t = py_strip s whitespace;
          neg = (t \<noteq> [] \<and> hd t = CHR ''-'');
          ds = (if t \<noteq> [] \<and> (hd t = CHR ''-'' \<or> hd t = CHR ''+'') then tl t else t)
      in if ds \<noteq> [] \<and> list_all is_digit ds
         then Inr (if neg then - int (digits_value ds) else int (digits_value ds))
         else Inl ValueError)"

section \<open>Downloader (patcher/downloader.py)\<close>

record range_request =
  start :: int
  end_pos :: int
  block_hash :: string

text \<open>
  \<open>_decompress_if_needed\<close>: the decompressor is present exactly when compression is in
  use; Zstandard decompression is a parameter and may raise.
\<close>

definition decompress_if_needed ::
  "(bytes \<Rightarrow> py_error + bytes) option \<Rightarrow> bytes \<Rightarrow> py_error + bytes" where
  "decompress_if_needed decompressor data =
     (case decompressor of None \<Rightarrow> Inr data | Some decompress \<Rightarrow> decompress data)"

text \<open>
  \<open>next((h for h in lines if h.startswith('Content-Range:')), '')\<close>.
\<close>

definition find_content_range :: "string list \<Rightarrow> string" where
  "find_content_range lines =
     (case filter (\<lambda>h. startswith h ''Content-Range:'') lines of [] \<Rightarrow> [] | h # _ \<Rightarrow> h)"

text \<open>\<open>next((r for r in ranges if r.start == start and r.end == end), None)\<close>.\<close>

definition find_matching_range :: "range_request list \<Rightarrow> int \<Rightarrow> int \<Rightarrow> range_request option" where
  "find_matching_range ranges s e =
     (case filter (\<lambda>r. start r = s \<and> end_pos r = e) ranges of [] \<Rightarrow> None | r # _ \<Rightarrow> Some r)"

text \<open>
  The body of the loop of \<open>_process_multipart_response\<close> for one part. The header bytes
  are taken as the text they decode to.
\<close>

definition process_part ::
  "(bytes \<Rightarrow> py_error + bytes) option \<Rightarrow> range_request list \<Rightarrow> bytes
    \<Rightarrow> (string \<times> bytes) list \<Rightarrow> py_error + (string \<times> bytes) list" where
  "process_part decompressor ranges part local_blocks =
     (let header_end = py_find part (CRLF @ CRLF) in
      if header_end = - 1 then Inr local_blocks
      else
        (let headers = take (nat header_end) part;
             content = py_rstrip (drop (nat header_end + 4) part) CRLF;
             content_range = find_content_range (py_split headers CRLF)
         in if content_range = [] then Inr local_blocks
            else
              (case py_index (py_split content_range ''bytes '') 1 of
                 Inl e \<Rightarrow> Inl e
               | Inr after_bytes \<Rightarrow>
                   (case py_index (py_split after_bytes ''/'') 0 of
                      Inl e \<Rightarrow> Inl e
                    | Inr range_info \<Rightarrow>
                        (case map py_int (py_split range_info ''-'') of
                           [Inr s, Inr e] \<Rightarrow>
                             (case find_matching_range ranges s e of
                                None \<Rightarrow> Inr local_blocks
                              | Some matching_range \<Rightarrow>
                                  (case decompress_if_needed decompressor content of
                                     Inl err \<Rightarrow> Inl err
                                   | Inr data \<Rightarrow>
                                       Inr (AList.update (block_hash matching_range) data
                                              local_blocks)))
                         | _ \<Rightarrow> Inl ValueError)))))"

fun process_parts ::
  "(bytes \<Rightarrow> py_error + bytes) option \<Rightarrow> range_request list \<Rightarrow> bytes list
    \<Rightarrow> (string \<times> bytes) list \<Rightarrow> py_error + (string \<times> bytes) list" where
  "process_parts decompressor ranges [] local_blocks = Inr local_blocks"
| "process_parts decompressor ranges (part # rest) local_blocks =
     (case process_part decompressor ranges part local_blocks of
        Inl e \<Rightarrow> Inl e
      | Inr local_blocks' \<Rightarrow> process_parts decompressor ranges rest local_blocks')"

text \<open>
  \<open>_process_multipart_response\<close>: the body is split at \<open>--boundary\<close>; the first and the
  last piece (\<open>parts[1:-1]\<close>) are left out.
\<close>

definition process_multipart_response ::
  "(bytes \<Rightarrow> py_error + bytes) option \<Rightarrow> bytes \<Rightarrow> string \<Rightarrow> range_request list
    \<Rightarrow> (string \<times> bytes) list \<Rightarrow> py_error + (string \<times> bytes) list" where
  "process_multipart_response decompressor body boundary ranges local_blocks =
     process_parts decompressor ranges (butlast (tl (py_split body (''--'' @ boundary)))) local_blocks"

section \<open>Producer: blocks (create/blockBuilder.py)\<close>

text \<open>
  A source file is given by its relative path and the chunks FastCDC cuts it into, each
  with the SHA-256 hex digest of its bytes. \<open>block_set\<close> is the \<open>OrderedDict\<close> from block
  hash to payload.
\<close>

type_synonym chunk = "string \<times> bytes"
type_synonym block_set = "(string \<times> bytes) list"

text \<open>
  The loop of \<open>BlockBuilder.__processFile\<close> over the chunks of one file: the raw block is
  appended to the training data, stored in the block set, and its hash appended to the
  file's block list.
\<close>

fun processFile_loop ::
  "chunk list \<Rightarrow> bytes list \<Rightarrow> block_set \<Rightarrow> string list \<Rightarrow> bytes list \<times> block_set \<times> string list" where
  "processFile_loop [] uncompressed blockSet fileHash = (uncompressed, blockSet, fileHash)"
| "processFile_loop ((blockHash, blockData) # rest) uncompressed blockSet fileHash =
     processFile_loop rest (uncompressed @ [blockData])
       (AList.update blockHash blockData blockSet) (fileHash @ [blockHash])"

text \<open>
  \<open>BlockBuilder.processDir\<close> before the final sort: the state is the training data, the
  file records and the block set.
\<close>

fun processDir_loop ::
  "(bytes \<Rightarrow> string) \<Rightarrow> (string \<times> chunk list) list
    \<Rightarrow> bytes list \<times> (string \<times> file_record) list \<times> block_set
    \<Rightarrow> bytes list \<times> (string \<times> file_record) list \<times> block_set" where
  "processDir_loop sha256 [] st = st"
| "processDir_loop sha256 ((relPath, chunks) # rest) (uncompressed, data, blockSet) =
     (case processFile_loop chunks uncompressed blockSet [] of
        (uncompressed', blockSet', fileHash) \<Rightarrow>
          processDir_loop sha256 rest
            (uncompressed',
             AList.update relPath \<lparr>file_hash = sha256 (concat fileHash), blocks = fileHash\<rparr> data,
             blockSet'))"

text \<open>
  The compression loop of \<open>writeBlockFiles\<close>: every payload of the block set is replaced
  by its compressed form (or kept, without compression); the keys and their order stay.
\<close>

definition compress_blocks :: "(bytes \<Rightarrow> bytes) option \<Rightarrow> block_set \<Rightarrow> block_set" where
  "compress_blocks compressor blockSet =
     fold (\<lambda>block bs.
             case map_of bs block of
               None \<Rightarrow> bs
             | Some blockBinary \<Rightarrow>
                 AList.update block
                   (case compressor of None \<Rightarrow> blockBinary | Some c \<Rightarrow> c blockBinary) bs)
          (map fst blockSet) blockSet"

section \<open>Producer: bundles (create/bundleBuilder.py)\<close>

text \<open>
  A bundle list \<open>{0: m0, 1: m1, ...}\<close> is built with the keys \<open>0, 1, ...\<close> in order, so it is
  the list of its members. Python renders it with \<open>str\<close> as
  \<open>{0: {'hash': '...', 'length': n, 'blockOffset': o}, 1: ...}\<close>; the hashes are hex
  digests, which \<open>repr\<close> puts between single quotes unchanged.
\<close>

definition SQ :: char where "SQ = CHR 0x27"

definition str_member :: "member \<Rightarrow> string" where
  "str_member m =
     ''{'' @ [SQ] @ ''hash'' @ [SQ] @ '': '' @ [SQ] @ hash m @ [SQ] @ '', '' @
     [SQ] @ ''length'' @ [SQ] @ '': '' @ str_nat (length_bytes m) @ '', '' @
     [SQ] @ ''blockOffset'' @ [SQ] @ '': '' @ str_nat (blockOffset m) @ ''}''"

fun str_entries :: "nat \<Rightarrow> member list \<Rightarrow> string" where
  "str_entries i [] = []"
| "str_entries i [m] = str_nat i @ '': '' @ str_member m"
| "str_entries i (m # ms) = str_nat i @ '': '' @ str_member m @ '', '' @ str_entries (i + 1) ms"

definition str_bundleList :: "member list \<Rightarrow> string" where
  "str_bundleList bundleList = ''{'' @ str_entries 0 bundleList @ ''}''"

text \<open>\<open>getBundleId\<close>: the SHA-256 hex digest of the rendering; SHA-256 is a parameter.\<close>

definition getBundleId :: "(bytes \<Rightarrow> string) \<Rightarrow> member list \<Rightarrow> string" where
  "getBundleId sha256 bundleList = sha256 (str_bundleList bundleList)"

text \<open>\<open>canMakeBundle\<close>: every member's hash is a key of the block set.\<close>

fun canMakeBundle :: "block_set \<Rightarrow> member_map \<Rightarrow> bool" where
  "canMakeBundle blockSet [] = True"
| "canMakeBundle blockSet (m # ms) =
     (if map_of blockSet (hash m) = None then False else canMakeBundle blockSet ms)"

text \<open>
  The loop of \<open>makeBundle\<close>: the member is re-created with the length of the block's
  payload in the block set and the running offset, and the block is deleted from the
  block set. \<open>self.__blockSet[hash]\<close> raises \<open>KeyError\<close> for a hash that is not (or no
  longer) there.
\<close>

fun makeBundle_loop ::
  "member_map \<Rightarrow> member list \<Rightarrow> nat \<Rightarrow> block_set \<Rightarrow> py_error + (member list \<times> block_set)" where
  "makeBundle_loop [] bundleList len blockSet = Inr (bundleList, blockSet)"
| "makeBundle_loop (m # ms) bundleList len blockSet =
     (case map_of blockSet (hash m) of
        None \<Rightarrow> Inl KeyError
      | Some result \<Rightarrow>
          makeBundle_loop ms
            (bundleList @ [\<lparr>hash = hash m, length_bytes = length result, blockOffset = len\<rparr>])
            (len + length result) (AList.delete (hash m) blockSet))"

text \<open>
  \<open>createBundle\<close> stores the bundle list under its id. (It also writes the bundle file,
  which is not part of this state.) The state of a \<open>BundleBuilder\<close> is its \<open>__data\<close>
  with its block set.
\<close>

definition createBundle ::
  "(bytes \<Rightarrow> string) \<Rightarrow> member list \<Rightarrow> (string \<times> member list) list \<Rightarrow> (string \<times> member list) list" where
  "createBundle sha256 bundleList data = AList.update (getBundleId sha256 bundleList) bundleList data"

definition makeBundle ::
  "(bytes \<Rightarrow> string) \<Rightarrow> member_map \<Rightarrow> (string \<times> member list) list \<times> block_set
    \<Rightarrow> py_error + ((string \<times> member list) list \<times> block_set)" where
  "makeBundle sha256 b st =
     (case st of (data, blockSet) \<Rightarrow>
        (case makeBundle_loop b [] 0 blockSet of
           Inl e \<Rightarrow> Inl e
         | Inr (bundleList, blockSet') \<Rightarrow> Inr (createBundle sha256 bundleList data, blockSet')))"

text \<open>The first loop of \<open>buildBundles\<close>, over the bundles of the old patch data.\<close>

fun old_bundles_loop ::
  "(bytes \<Rightarrow> string) \<Rightarrow> (string \<times> member_map) list \<Rightarrow> (string \<times> member list) list \<times> block_set
    \<Rightarrow> py_error + ((string \<times> member list) list \<times> block_set)" where
  "old_bundles_loop sha256 [] st = Inr st"
| "old_bundles_loop sha256 ((bundle, b) # rest) st =
     (if canMakeBundle (snd st) b then
        (case makeBundle sha256 b st of
           Inl e \<Rightarrow> Inl e
         | Inr st' \<Rightarrow> old_bundles_loop sha256 rest st')
      else old_bundles_loop sha256 rest st)"

text \<open>
  The second loop of \<open>buildBundles\<close>, over the blocks that remain: \<open>bundleList\<close> gets the
  key \<open>blocksProcessed\<close>, which is its size at that moment, so the member is appended; the
  sixtieth member closes the bundle.
\<close>

fun remaining_loop ::
  "(bytes \<Rightarrow> string) \<Rightarrow> block_set \<Rightarrow> member list \<Rightarrow> nat \<Rightarrow> nat \<Rightarrow> (string \<times> member list) list
    \<Rightarrow> member list \<times> (string \<times> member list) list" where
  "remaining_loop sha256 [] bundleList len blocksProcessed data = (bundleList, data)"
| "remaining_loop sha256 ((block, result) # rest) bundleList len blocksProcessed data =
     (let bundleList' =
            bundleList @ [\<lparr>hash = block, length_bytes = length result, blockOffset = len\<rparr>]
      in if blocksProcessed = 59 then
           remaining_loop sha256 rest [] 0 0 (createBundle sha256 bundleList' data)
         else remaining_loop sha256 rest bundleList' (len + length result) (blocksProcessed + 1) data)"

text \<open>
  \<open>buildBundles\<close>. \<open>data0\<close> is \<open>BundleBuilder.__data\<close> when the method starts: the empty
  dict of the class definition in a fresh interpreter. The result is the bundle map of
  the new manifest (the keys \<open>str(idx)\<close> of the normalised member maps are again the
  positions in the list).
\<close>

definition buildBundles ::
  "(bytes \<Rightarrow> string) \<Rightarrow> manifest \<Rightarrow> (string \<times> member list) list \<Rightarrow> block_set
    \<Rightarrow> py_error + (string \<times> member list) list" where
  "buildBundles sha256 oldPatchData data0 blockSet0 =
     (case old_bundles_loop sha256 (bundles oldPatchData) (data0, blockSet0) of
        Inl e \<Rightarrow> Inl e
      | Inr (data1, blockSet1) \<Rightarrow>
          (case (if length blockSet1 > 0 then remaining_loop sha256 blockSet1 [] 0 0 data1
                 else ([], data1)) of
             (bundleList, data2) \<Rightarrow>
               Inr (if length bundleList > 0 then createBundle sha256 bundleList data2 else data2)))"

section \<open>Producer: the pipeline (create/create.py)\<close>

text \<open>
  \<open>create_patch\<close> in a fresh interpreter: the directory is chunked, an empty result is a
  \<open>ValueError\<close>, the blocks are compressed, the bundles are built against the old patch
  data and the manifest is put together. \<open>source\<close> lists the files in the order of
  \<open>os.walk\<close>; \<open>compressor\<close> is the Zstandard compressor with the dictionary, if compression
  is on; \<open>old_patch_data\<close> is what \<open>util.getPatchData\<close> returned.
\<close>

definition create_patch ::
  "(bytes \<Rightarrow> string) \<Rightarrow> (string \<times> chunk list) list \<Rightarrow> (bytes \<Rightarrow> bytes) option \<Rightarrow> manifest
    \<Rightarrow> py_error + manifest" where
  "create_patch sha256 source compressor old_patch_data =
     (case processDir_loop sha256 source ([], [], []) of
        (uncompressed, data, blockSet) \<Rightarrow>
          (let block_data = sort_key fst data; block_set = blockSet in
           if length block_data = 0 \<or> length block_set = 0 then Inl ValueError
           else
             (case buildBundles sha256 old_patch_data [] (compress_blocks compressor block_set) of
                Inl e \<Rightarrow> Inl e
              | Inr bundle_data \<Rightarrow> Inr \<lparr>files = block_data, bundles = bundle_data\<rparr>)))"

section \<open>Producer: the bundle lists of a run\<close>

text \<open>
  The member maps that \<open>buildBundles\<close> hands to \<open>createBundle\<close>, in that order, without
  the dict they are stored in: \<open>relaid\<close> is the member map \<open>makeBundle\<close> builds for an
  old bundle, \<open>old_lists\<close> and \<open>remaining_lists\<close> follow the two loops, \<open>created_lists\<close>
  the whole method. \<open>producer_block_set\<close> is the block set \<open>create_patch\<close> gives to the
  bundle builder.
\<close>

fun relaid :: "block_set \<Rightarrow> member_map \<Rightarrow> nat \<Rightarrow> member list" where
  "relaid blockSet [] len = []"
| "relaid blockSet (m # ms) len =
     (case map_of blockSet (hash m) of
        None \<Rightarrow> []
      | Some result \<Rightarrow>
          \<lparr>hash = hash m, length_bytes = length result, blockOffset = len\<rparr>
            # relaid blockSet ms (len + length result))"

fun old_lists :: "(string \<times> member_map) list \<Rightarrow> block_set \<Rightarrow> py_error + (member list list \<times> block_set)" where
  "old_lists [] blockSet = Inr ([], blockSet)"
| "old_lists ((bundle, b) # rest) blockSet =
     (if canMakeBundle blockSet b then
        (case makeBundle_loop b [] 0 blockSet of
           Inl e \<Rightarrow> Inl e
         | Inr (bundleList, blockSet') \<Rightarrow>
             (case old_lists rest blockSet' of
                Inl e \<Rightarrow> Inl e
              | Inr (ls, blockSet'') \<Rightarrow> Inr (bundleList # ls, blockSet'')))
      else old_lists rest blockSet)"

fun remaining_lists :: "block_set \<Rightarrow> member list \<Rightarrow> nat \<Rightarrow> nat \<Rightarrow> member list list \<times> member list" where
  "remaining_lists [] bundleList len blocksProcessed = ([], bundleList)"
| "remaining_lists ((block, result) # rest) bundleList len blocksProcessed =
     (let bundleList' =
            bundleList @ [\<lparr>hash = block, length_bytes = length result, blockOffset = len\<rparr>]
      in if blocksProcessed = 59 then
           (case remaining_lists rest [] 0 0 of (ls, open_list) \<Rightarrow> (bundleList' # ls, open_list))
         else remaining_lists rest bundleList' (len + length result) (blocksProcessed + 1))"

definition created_lists :: "manifest \<Rightarrow> block_set \<Rightarrow> py_error + member list list" where
  "created_lists oldPatchData blockSet0 =
     (case old_lists (bundles oldPatchData) blockSet0 of
        Inl e \<Rightarrow> Inl e
      | Inr (ls1, blockSet1) \<Rightarrow>
          (case (if length blockSet1 > 0 then remaining_lists blockSet1 [] 0 0 else ([], [])) of
             (ls2, open_list) \<Rightarrow>
               Inr (ls1 @ ls2 @ (if length open_list > 0 then [open_list] else []))))"

definition producer_block_set ::
  "(bytes \<Rightarrow> string) \<Rightarrow> (string \<times> chunk list) list \<Rightarrow> (bytes \<Rightarrow> bytes) option \<Rightarrow> block_set" where
  "producer_block_set sha256 source compressor =
     compress_blocks compressor (snd (snd (processDir_loop sha256 source ([], [], []))))"

definition hashes_of :: "member list list \<Rightarrow> string list" where
  "hashes_of L = concat (map (map hash) L)"

text \<open>
  A small source tree and three prior manifests for it: one whose bundle records the
  payload length of the tree's block (2 bytes), one whose two bundles share the block
  \<open>bb\<close>, and one made when the payload of \<open>aa\<close> was compressed to 1 byte.
\<close>

definition example_source :: "(string \<times> chunk list) list" where
  "example_source =
     [(''f'', [(''aa'', ''xy''), (''bb'', ''z'')]), (''g'', [(''bb'', ''z''), (''cc'', ''w'')])]"

definition example_bundle :: member_map where
  "example_bundle = [\<lparr>hash = ''aa'', length_bytes = 2, blockOffset = 0\<rparr>]"

definition example_prior :: manifest where
  "example_prior =
     \<lparr>files = [(''f'', \<lparr>file_hash = ''aa'', blocks = [''aa'']\<rparr>)],
      bundles = [(getBundleId (\<lambda>s. s) example_bundle, example_bundle)]\<rparr>"

definition overlapping_prior :: manifest where
  "overlapping_prior =
     \<lparr>files = [],
      bundles = [(''p1'', [\<lparr>hash = ''aa'', length_bytes = 2, blockOffset = 0\<rparr>,
                           \<lparr>hash = ''bb'', length_bytes = 1, blockOffset = 2\<rparr>]),
                 (''p2'', [\<lparr>hash = ''bb'', length_bytes = 1, blockOffset = 0\<rparr>,
                           \<lparr>hash = ''cc'', length_bytes = 1, blockOffset = 1\<rparr>])]\<rparr>"

definition compressed_bundle :: member_map where
  "compressed_bundle = [\<lparr>hash = ''aa'', length_bytes = 1, blockOffset = 0\<rparr>]"

definition compressed_prior :: manifest where
  "compressed_prior =
     \<lparr>files = [(''f'', \<lparr>file_hash = ''aa'', blocks = [''aa'']\<rparr>)],
      bundles = [(getBundleId (\<lambda>s. s) compressed_bundle, compressed_bundle)]\<rparr>"

section \<open>Fetching the manifest (util.py)\<close>

definition isURL :: "string \<Rightarrow> bool" where
  "isURL url = (str_contains ''http://'' url \<or> str_contains ''https://'' url)"

definition empty_patch_data :: manifest where
  "empty_patch_data = \<lparr>files = [], bundles = []\<rparr>"

text \<open>
  \<open>util.getPatchData\<close>. \<open>url_response\<close> is what \<open>urlopen\<close> of \<open>loc/patchData.json\<close>
  followed by \<open>json.loads\<close> gives, \<open>file_response\<close> what opening and parsing the local
  file gives. For a URL, \<open>urllib.error.URLError\<close> (and its subclass \<open>HTTPError\<close>) is
  caught and the empty patch data returned, any other exception leaves the function; for
  a local path every exception is caught.
\<close>

definition getPatchData ::
  "string \<Rightarrow> py_error + manifest \<Rightarrow> py_error + manifest \<Rightarrow> py_error + manifest" where
  "getPatchData loc url_response file_response =
     (if loc = [] then Inr empty_patch_data
      else if isURL loc then
        (case url_response of
           Inr pd \<Rightarrow> Inr pd
         | Inl e \<Rightarrow> if e = URLError \<or> e = HTTPError then Inr empty_patch_data else Inl e)
      else (case file_response of Inr pd \<Rightarrow> Inr pd | Inl e \<Rightarrow> Inr empty_patch_data))"

section \<open>Downloader: requests (patcher/downloader.py, util.py)\<close>

text \<open>An HTTP response: status, \<open>Content-Type\<close> header (\<open>''\<close> when absent) and body.\<close>

record response =
  resp_status :: nat
  resp_content_type :: string
  resp_body :: bytes

text \<open>
  \<open>bundle_index\<close>, built in \<open>Downloader.__init__\<close> from the patch data it fetches: for
  each bundle the dict from member hash to \<open>(blockOffset, length)\<close>.
\<close>

type_synonym bundle_index = "(string \<times> (string \<times> nat \<times> nat) list) list"

definition build_bundle_index :: "manifest \<Rightarrow> bundle_index" where
  "build_bundle_index build_meta =
     fold (\<lambda>(bund_id, blkmap) idx.
             AList.update bund_id
               (fold (\<lambda>meta d. AList.update (hash meta) (blockOffset meta, length_bytes meta) d)
                  blkmap [])
               idx)
          (bundles build_meta) []"

definition get_block_info :: "bundle_index \<Rightarrow> string \<Rightarrow> string \<Rightarrow> (nat \<times> nat) option" where
  "get_block_info idx bundle_id h =
     (case map_of idx bundle_id of None \<Rightarrow> None | Some bundle_blocks \<Rightarrow> map_of bundle_blocks h)"

text \<open>\<open>_create_range_requests\<close>: one request per needed hash the index knows, sorted by start.\<close>

fun create_ranges_loop ::
  "(string \<times> nat \<times> nat) list \<Rightarrow> string list \<Rightarrow> range_request list \<Rightarrow> range_request list" where
  "create_ranges_loop bundle_blocks [] ranges = ranges"
| "create_ranges_loop bundle_blocks (h # rest) ranges =
     (case map_of bundle_blocks h of
        None \<Rightarrow> create_ranges_loop bundle_blocks rest ranges
      | Some (offset, len) \<Rightarrow>
          create_ranges_loop bundle_blocks rest
            (ranges @ [\<lparr>start = int offset, end_pos = int offset + int len - 1, block_hash = h\<rparr>]))"

definition create_range_requests :: "bundle_index \<Rightarrow> string \<Rightarrow> string list \<Rightarrow> range_request list" where
  "create_range_requests idx bundle_id needed_blocks =
     sort_key start
       (create_ranges_loop (case map_of idx bundle_id of None \<Rightarrow> [] | Some d \<Rightarrow> d)
          needed_blocks [])"

text \<open>The \<open>Range\<close> header: \<open>','.join(f'bytes={r.start}-{r.end}' for r in ranges)\<close>.\<close>

definition str_int :: "int \<Rightarrow> string" where
  "str_int i = (if i < 0 then ''-'' @ str_nat (nat (- i)) else str_nat (nat i))"

fun py_join :: "string \<Rightarrow> string list \<Rightarrow> string" where
  "py_join sep [] = []"
| "py_join sep [x] = x"
| "py_join sep (x # xs) = x @ sep @ py_join sep xs"

definition range_header :: "range_request list \<Rightarrow> string" where
  "range_header ranges =
     py_join '','' (map (\<lambda>r. ''bytes='' @ str_int (start r) @ ''-'' @ str_int (end_pos r)) ranges)"

text \<open>
  \<open>util.fetch\<close>: a GET without headers; \<open>raise_for_status\<close> raises for a status of 400 or
  more, any other status lets the body through. \<open>http_get url range\<close> is the session's
  answer, or the transport error it raises.
\<close>

definition util_fetch ::
  "(string \<Rightarrow> string option \<Rightarrow> py_error + response) \<Rightarrow> string \<Rightarrow> py_error + bytes" where
  "util_fetch http_get url =
     (case http_get url None of
        Inl e \<Rightarrow> Inl e
      | Inr r \<Rightarrow>
          if resp_status r \<noteq> 200 \<and> resp_status r \<ge> 400 then Inl ClientResponseError
          else Inr (resp_body r))"

text \<open>
  \<open>_process_bundle\<close> and \<open>_process_bundle_sync\<close> (the same loop): the slices of a whole
  bundle file for the needed hashes that are not in the pool yet.
\<close>

fun process_bundle ::
  "(bytes \<Rightarrow> py_error + bytes) option \<Rightarrow> bundle_index \<Rightarrow> string \<Rightarrow> bytes \<Rightarrow> string list
    \<Rightarrow> (string \<times> bytes) list \<Rightarrow> py_error + (string \<times> bytes) list" where
  "process_bundle decompressor idx bundle_id bundle_data [] local_blocks = Inr local_blocks"
| "process_bundle decompressor idx bundle_id bundle_data (h # rest) local_blocks =
     (if map_of local_blocks h \<noteq> None
      then process_bundle decompressor idx bundle_id bundle_data rest local_blocks
      else
        (case get_block_info idx bundle_id h of
           None \<Rightarrow> process_bundle decompressor idx bundle_id bundle_data rest local_blocks
         | Some (offset, len) \<Rightarrow>
             (case decompress_if_needed decompressor (take len (drop offset bundle_data)) of
                Inl e \<Rightarrow> Inl e
              | Inr block_data \<Rightarrow>
                  process_bundle decompressor idx bundle_id bundle_data rest
                    (AList.update h block_data local_blocks))))"

definition process_single_range ::
  "(bytes \<Rightarrow> py_error + bytes) option \<Rightarrow> bytes \<Rightarrow> range_request \<Rightarrow> (string \<times> bytes) list
    \<Rightarrow> py_error + (string \<times> bytes) list" where
  "process_single_range decompressor data range_req local_blocks =
     (case decompress_if_needed decompressor data of
        Inl e \<Rightarrow> Inl e
      | Inr block_data \<Rightarrow> Inr (AList.update (block_hash range_req) block_data local_blocks))"

text \<open>
  \<open>_fetch_bundle_ranges\<close>: one multi-range GET; a 206 answer is multipart or a single
  range, any other status falls back to the whole bundle file.
\<close>

definition fetch_bundle_ranges ::
  "(string \<Rightarrow> string option \<Rightarrow> py_error + response) \<Rightarrow> (bytes \<Rightarrow> py_error + bytes) option
    \<Rightarrow> bundle_index \<Rightarrow> string \<Rightarrow> string \<Rightarrow> range_request list \<Rightarrow> (string \<times> bytes) list
    \<Rightarrow> py_error + (string \<times> bytes) list" where
  "fetch_bundle_ranges http_get decompressor idx loc bundle_id ranges local_blocks =
     (case ranges of
        [] \<Rightarrow> Inr local_blocks
      | r0 # _ \<Rightarrow>
          (case http_get (loc @ ''/bundles/'' @ bundle_id) (Some (range_header ranges)) of
             Inl e \<Rightarrow> Inl e
           | Inr rsp \<Rightarrow>
               if resp_status rsp = 206 then
                 (if str_contains ''multipart/byteranges'' (resp_content_type rsp) then
                    (case py_index (py_split (resp_content_type rsp) ''boundary='') 1 of
                       Inl e \<Rightarrow> Inl e
                     | Inr b \<Rightarrow>
                         process_multipart_response decompressor (resp_body rsp)
                           (py_strip b [CHR 0x22]) ranges local_blocks)
                  else process_single_range decompressor (resp_body rsp) r0 local_blocks)
               else
                 (case util_fetch http_get (loc @ ''/bundles/'' @ bundle_id) of
                    Inl e \<Rightarrow> Inl e
                  | Inr resp \<Rightarrow>
                      process_bundle decompressor idx bundle_id resp (map block_hash ranges)
                        local_blocks)))"

text \<open>
  \<open>_fetch_remote\<close>. The requests run concurrently on one thread; each answer is
  processed to its end, so they are taken one after the other here, the bundles in the
  order of the plan and then the blocks in the order given. An exception of any request
  leaves the function.
\<close>

fun fetch_bundles_remote ::
  "(string \<Rightarrow> string option \<Rightarrow> py_error + response) \<Rightarrow> (bytes \<Rightarrow> py_error + bytes) option
    \<Rightarrow> bundle_index \<Rightarrow> string \<Rightarrow> (string \<times> string list) list \<Rightarrow> (string \<times> bytes) list
    \<Rightarrow> py_error + (string \<times> bytes) list" where
  "fetch_bundles_remote http_get decompressor idx loc [] local_blocks = Inr local_blocks"
| "fetch_bundles_remote http_get decompressor idx loc ((bundle_id, needed_blocks) # rest) local_blocks =
     (case fetch_bundle_ranges http_get decompressor idx loc bundle_id
             (create_range_requests idx bundle_id needed_blocks) local_blocks of
        Inl e \<Rightarrow> Inl e
      | Inr local_blocks' \<Rightarrow> fetch_bundles_remote http_get decompressor idx loc rest local_blocks')"

fun fetch_blocks_remote ::
  "(string \<Rightarrow> string option \<Rightarrow> py_error + response) \<Rightarrow> (bytes \<Rightarrow> py_error + bytes) option
    \<Rightarrow> string \<Rightarrow> string list \<Rightarrow> (string \<times> bytes) list \<Rightarrow> py_error + (string \<times> bytes) list" where
  "fetch_blocks_remote http_get decompressor loc [] local_blocks = Inr local_blocks"
| "fetch_blocks_remote http_get decompressor loc (block # rest) local_blocks =
     (case util_fetch http_get (loc @ ''/blocks/'' @ block) of
        Inl e \<Rightarrow> Inl e
      | Inr resp \<Rightarrow>
          (case decompress_if_needed decompressor resp of
             Inl e \<Rightarrow> Inl e
           | Inr block_data \<Rightarrow>
               fetch_blocks_remote http_get decompressor loc rest
                 (AList.update block block_data local_blocks)))"

text \<open>\<open>_fetch_local\<close>: \<open>read_file\<close> is \<open>util.loadBinFile\<close>, which raises when the file cannot be read.\<close>

fun fetch_bundles_local ::
  "(string \<Rightarrow> py_error + bytes) \<Rightarrow> (bytes \<Rightarrow> py_error + bytes) option \<Rightarrow> bundle_index \<Rightarrow> string
    \<Rightarrow> (string \<times> string list) list \<Rightarrow> (string \<times> bytes) list \<Rightarrow> py_error + (string \<times> bytes) list" where
  "fetch_bundles_local read_file decompressor idx loc [] local_blocks = Inr local_blocks"
| "fetch_bundles_local read_file decompressor idx loc ((bundle_id, needed_blocks) # rest) local_blocks =
     (case read_file (loc @ ''/bundles/'' @ bundle_id) of
        Inl e \<Rightarrow> Inl e
      | Inr resp \<Rightarrow>
          (case process_bundle decompressor idx bundle_id resp needed_blocks local_blocks of
             Inl e \<Rightarrow> Inl e
           | Inr local_blocks' \<Rightarrow>
               fetch_bundles_local read_file decompressor idx loc rest local_blocks'))"

fun fetch_blocks_local ::
  "(string \<Rightarrow> py_error + bytes) \<Rightarrow> (bytes \<Rightarrow> py_error + bytes) option \<Rightarrow> string \<Rightarrow> string list
    \<Rightarrow> (string \<times> bytes) list \<Rightarrow> py_error + (string \<times> bytes) list" where
  "fetch_blocks_local read_file decompressor loc [] local_blocks = Inr local_blocks"
| "fetch_blocks_local read_file decompressor loc (block # rest) local_blocks =
     (case read_file (loc @ ''/blocks/'' @ block) of
        Inl e \<Rightarrow> Inl e
      | Inr resp \<Rightarrow>
          (case decompress_if_needed decompressor resp of
             Inl e \<Rightarrow> Inl e
           | Inr block_data \<Rightarrow>
               fetch_blocks_local read_file decompressor loc rest
                 (AList.update block block_data local_blocks)))"

text \<open>\<open>Downloader.fetch\<close>; \<open>blocks_to_download\<close> is the residual set in its iteration order.\<close>

definition fetch ::
  "(string \<Rightarrow> string option \<Rightarrow> py_error + response) \<Rightarrow> (string \<Rightarrow> py_error + bytes)
    \<Rightarrow> (bytes \<Rightarrow> py_error + bytes) option \<Rightarrow> bundle_index \<Rightarrow> string
    \<Rightarrow> (string \<times> string list) list \<Rightarrow> string list \<Rightarrow> (string \<times> bytes) list
    \<Rightarrow> py_error + (string \<times> bytes) list" where
  "fetch http_get read_file decompressor idx loc to_download blocks_to_download local_blocks =
     (if isURL loc then
        (case fetch_bundles_remote http_get decompressor idx loc to_download local_blocks of
           Inl e \<Rightarrow> Inl e
         | Inr local_blocks' \<Rightarrow>
             fetch_blocks_remote http_get decompressor loc blocks_to_download local_blocks')
      else
        (case fetch_bundles_local read_file decompressor idx loc to_download local_blocks of
           Inl e \<Rightarrow> Inl e
         | Inr local_blocks' \<Rightarrow>
             fetch_blocks_local read_file decompressor loc blocks_to_download local_blocks'))"

section \<open>The apply operation (patcher/\_\_init\_\_.py)\<close>

text \<open>
  \<open>BlockGenerator.scan\<close>: the blocks of the listed files; \<open>fastcdc path\<close> gives the chunks
  of the file at \<open>path\<close>, or nothing when \<open>os.path.exists(path)\<close> is false. The workers are
  run one after the other.
\<close>

fun scan :: "(string \<Rightarrow> chunk list option) \<Rightarrow> string list \<Rightarrow> (string \<times> bytes) list \<Rightarrow> (string \<times> bytes) list" where
  "scan fastcdc [] blocks_found = blocks_found"
| "scan fastcdc (filepath # rest) blocks_found =
     (case fastcdc filepath of
        None \<Rightarrow> scan fastcdc rest blocks_found
      | Some chunks \<Rightarrow>
          scan fastcdc rest (fold (\<lambda>(h, d) bs. AList.update h d bs) chunks blocks_found))"

text \<open>\<open>PatchData.get_missing_blocks\<close>.\<close>

fun get_missing_blocks ::
  "string list \<Rightarrow> manifest \<Rightarrow> (string \<times> bytes) list \<Rightarrow> string set \<Rightarrow> py_error + string set" where
  "get_missing_blocks [] new_build local_blocks missing_blocks = Inr missing_blocks"
| "get_missing_blocks (filename # rest) new_build local_blocks missing_blocks =
     (case map_of (files new_build) filename of
        None \<Rightarrow> Inl KeyError
      | Some r \<Rightarrow>
          get_missing_blocks rest new_build local_blocks
            (fold (\<lambda>block m. if map_of local_blocks block = None then insert block m else m)
               (blocks r) missing_blocks))"

text \<open>
  \<open>FilePatcher.apply\<close>: the files one after the other; the first exception ends the
  loop. \<open>mkstemp filename tree\<close> is the temporary path chosen for a file, \<open>write_ok filename\<close>
  tells which of its writes are accepted.
\<close>

fun apply_files ::
  "string \<Rightarrow> (string \<Rightarrow> install_tree \<Rightarrow> string) \<Rightarrow> (string \<Rightarrow> nat \<Rightarrow> bool) \<Rightarrow> manifest
    \<Rightarrow> (string \<times> bytes) list \<Rightarrow> string list \<Rightarrow> install_tree \<Rightarrow> py_error option \<times> install_tree" where
  "apply_files now mkstemp write_ok new_build local_blocks [] tree = (None, tree)"
| "apply_files now mkstemp write_ok new_build local_blocks (filename # rest) tree =
     (case apply_patch_to_file now (mkstemp filename tree) (write_ok filename) filename
             new_build local_blocks tree of
        (Some e, tree') \<Rightarrow> (Some e, tree')
      | (None, tree') \<Rightarrow> apply_files now mkstemp write_ok new_build local_blocks rest tree')"

text \<open>
  What an apply operation sees of its surroundings: SHA-256; the answers to its request
  for the manifest (by URL, from a local directory); the HTTP session and the local
  reader for blocks and bundles; the chunker of the local scan; the iteration order of a
  set of hashes; \<open>mkstemp\<close>, the modification time given to written files and the writes
  the system accepts.
\<close>

record env =
  env_sha256 :: "bytes \<Rightarrow> string"
  env_url_manifest :: "py_error + manifest"
  env_file_manifest :: "py_error + manifest"
  env_http_get :: "string \<Rightarrow> string option \<Rightarrow> py_error + response"
  env_read_file :: "string \<Rightarrow> py_error + bytes"
  env_fastcdc :: "string \<Rightarrow> chunk list option"
  env_iter_order :: "string set \<Rightarrow> string list"
  env_mkstemp :: "string \<Rightarrow> install_tree \<Rightarrow> string"
  env_now :: string
  env_write_ok :: "string \<Rightarrow> nat \<Rightarrow> bool"

text \<open>
  The \<open>Patcher\<close> after \<open>__init__\<close>: the path of the patch data, the decompressor (present
  when the patch data asked for compression) and the downloader's bundle index.
\<close>

record patcher =
  patch_data_path :: string
  decompressor_of :: "(bytes \<Rightarrow> py_error + bytes) option"
  bundle_index_of :: bundle_index

text \<open>
  The state an apply operation changes: the install tree, the changelog in memory and
  the changelog file (absent before the first save).
\<close>

record world =
  w_tree :: install_tree
  w_changelog :: changelog
  w_changelog_file :: "changelog option"

text \<open>
  \<open>Patcher.patch\<close>: the result is the exception that ends it, if any, and the state it
  leaves.
\<close>

definition patch :: "env \<Rightarrow> patcher \<Rightarrow> world \<Rightarrow> py_error option \<times> world" where
  "patch ev p w =
     (case getPatchData (patch_data_path p) (env_url_manifest ev) (env_file_manifest ev) of
        Inl e \<Rightarrow> (Some e, w)
      | Inr new_build \<Rightarrow>
          (let local_files = get_local_file_hashes (env_sha256 ev) (w_tree w);
               files_to_patch =
                 get_files_to_patch new_build local_files (is_valid (w_tree w) (w_changelog w));
               local_blocks = scan (env_fastcdc ev) files_to_patch []
           in case get_missing_blocks files_to_patch new_build local_blocks {} of
                Inl e \<Rightarrow> (Some e, w)
              | Inr missing_blocks \<Rightarrow>
                  (case find_bundles_and_blocks_to_fetch new_build missing_blocks of
                     Inl e \<Rightarrow> (Some e, w)
                   | Inr (to_download, blocks_to_download) \<Rightarrow>
                       (case fetch (env_http_get ev) (env_read_file ev) (decompressor_of p)
                               (bundle_index_of p) (patch_data_path p) to_download
                               (env_iter_order ev blocks_to_download) local_blocks of
                          Inl e \<Rightarrow> (Some e, w)
                        | Inr pool \<Rightarrow>
                            (case apply_files (env_now ev) (env_mkstemp ev) (env_write_ok ev)
                                    new_build pool files_to_patch (w_tree w) of
                               (Some e, tree') \<Rightarrow> (Some e, w\<lparr>w_tree := tree'\<rparr>)
                             | (None, tree') \<Rightarrow>
                                 (case cleaner_run new_build (tree', w_changelog w) of
                                    (tree'', data'') \<Rightarrow>
                                      (None,
                                       \<lparr>w_tree = tree'', w_changelog = data'',
                                        w_changelog_file = Some data''\<rparr>)))))))"

chapter \<open>Proofs\<close>

section \<open>Planner\<close>

lemma scan_members_eq:
  "scan_members missing ms n acc = (n + length ms, acc @ needed_of missing ms)"
  by (induction ms arbitrary: n acc) (auto simp: needed_of_def)

lemma update_fresh: "k \<notin> fst ` set al \<Longrightarrow> AList.update k v al = al @ [(k, v)]"
  by (induction al) auto

lemma analyze_bundles_loop_eq:
  "distinct (map fst bs) \<Longrightarrow> fst ` set bs \<inter> fst ` set info = {} \<Longrightarrow>
   analyze_bundles_loop bs missing info =
     Inr (info @ map (\<lambda>(b, ms). (b, info_of missing ms)) (filter (\<lambda>(b, ms). ms \<noteq> []) bs))"
proof (induction bs arbitrary: info)
  case Nil
  then show ?case by simp
next
  case (Cons p bs)
  obtain b ms where p: "p = (b, ms)" by (cases p)
  show ?case
  proof (cases "ms = []")
    case True
    with Cons p show ?thesis by (auto simp: scan_members_eq)
  next
    case False
    let ?i = "info_of missing ms"
    have fresh: "b \<notin> fst ` set info" using Cons.prems p by auto
    have upd: "AList.update b ?i info = info @ [(b, ?i)]" by (rule update_fresh [OF fresh])
    have d: "distinct (map fst bs)" using Cons.prems by simp
    have disj: "fst ` set bs \<inter> fst ` set (info @ [(b, ?i)]) = {}"
      using Cons.prems p by auto
    have "analyze_bundles_loop (p # bs) missing info =
            analyze_bundles_loop bs missing (info @ [(b, ?i)])"
      using False upd by (simp add: p scan_members_eq py_truediv_def info_of_def)
    also have "\<dots> = Inr ((info @ [(b, ?i)]) @
                  map (\<lambda>(b, ms). (b, info_of missing ms)) (filter (\<lambda>(b, ms). ms \<noteq> []) bs))"
      by (rule Cons.IH [OF d disj])
    finally show ?thesis using False by (simp add: p)
  qed
qed

lemma analyze_bundles_eq:
  "distinct (map fst (bundles nb)) \<Longrightarrow>
   analyze_bundles nb missing =
     Inr (map (\<lambda>(b, ms). (b, info_of missing ms)) (filter (\<lambda>(b, ms). ms \<noteq> []) (bundles nb)))"
  using analyze_bundles_loop_eq [of "bundles nb" "[]" missing]
  by (simp add: analyze_bundles_def)

lemma analyze_bundles_loop_total:
  "\<exists>res. analyze_bundles_loop bs missing info = Inr res"
  by (induction bs arbitrary: info)
     (auto simp: scan_members_eq py_truediv_def split: prod.splits)

lemma discard_all_eq: "discard_all xs S = S - set xs"
  by (induction xs arbitrary: S) auto

lemma analyze_bundles_loop_keys:
  "analyze_bundles_loop bs missing info = Inr res \<Longrightarrow> b \<in> fst ` set res \<Longrightarrow>
   b \<in> fst ` set info \<or> (\<exists>ms. (b, ms) \<in> set bs \<and> ms \<noteq> [])"
proof (induction bs arbitrary: info)
  case Nil
  then show ?case by simp
next
  case (Cons p bs)
  obtain b' ms' where p: "p = (b', ms')" by (cases p)
  show ?case
  proof (cases "ms' = []")
    case True
    then have "analyze_bundles_loop bs missing info = Inr res"
      using Cons.prems(1) by (simp add: p scan_members_eq)
    from Cons.IH [OF this Cons.prems(2)] show ?thesis by auto
  next
    case False
    then have "analyze_bundles_loop bs missing (AList.update b' (info_of missing ms') info) = Inr res"
      using Cons.prems(1) by (simp add: p scan_members_eq py_truediv_def info_of_def)
    from Cons.IH [OF this Cons.prems(2)] False show ?thesis
      by (auto simp: p dom_update)
  qed
qed

lemma bundles_to_download_loop_keys:
  "bundles_to_download_loop info acc rem = (plan, rem') \<Longrightarrow> b \<in> fst ` set plan \<Longrightarrow>
   b \<in> fst ` set acc \<or> b \<in> fst ` set info"
proof (induction info arbitrary: acc rem)
  case Nil
  then show ?case by simp
next
  case (Cons p info)
  obtain b' i where p: "p = (b', i)" by (cases p)
  show ?case
  proof (cases "percentNeeded i \<ge> 1 / 2")
    case True
    then have "bundles_to_download_loop info (AList.update b' (blocksNeeded i) acc)
                 (discard_all (blocksNeeded i) rem) = (plan, rem')"
      using Cons.prems(1) by (simp add: p)
    from Cons.IH [OF this Cons.prems(2)] show ?thesis
      by (auto simp: p dom_update)
  next
    case False
    then have "bundles_to_download_loop info acc rem = (plan, rem')"
      using Cons.prems(1) by (simp add: p)
    from Cons.IH [OF this Cons.prems(2)] show ?thesis by auto
  qed
qed

lemma bundles_to_download_loop_eq:
  "distinct (map fst info) \<Longrightarrow> fst ` set info \<inter> fst ` set acc = {} \<Longrightarrow>
   bundles_to_download_loop info acc rem =
     (acc @ map (\<lambda>(b, i). (b, blocksNeeded i)) (filter (\<lambda>(b, i). percentNeeded i \<ge> 1 / 2) info),
      rem - (\<Union>(b, i) \<in> set (filter (\<lambda>(b, i). percentNeeded i \<ge> 1 / 2) info). set (blocksNeeded i)))"
proof (induction info arbitrary: acc rem)
  case Nil
  then show ?case by simp
next
  case (Cons p info)
  obtain b i where p: "p = (b, i)" by (cases p)
  have d: "distinct (map fst info)" using Cons.prems by simp
  show ?case
  proof (cases "percentNeeded i \<ge> 1 / 2")
    case True
    have fresh: "b \<notin> fst ` set acc" using Cons.prems p by auto
    have upd: "AList.update b (blocksNeeded i) acc = acc @ [(b, blocksNeeded i)]"
      by (rule update_fresh [OF fresh])
    have disj: "fst ` set info \<inter> fst ` set (acc @ [(b, blocksNeeded i)]) = {}"
      using Cons.prems p by auto
    show ?thesis
      using True Cons.IH [OF d disj, of "rem - set (blocksNeeded i)"]
      by (auto simp: p upd discard_all_eq)
  next
    case False
    have disj: "fst ` set info \<inter> fst ` set acc = {}" using Cons.prems by auto
    show ?thesis using False Cons.IH [OF d disj, of rem] by (simp add: p)
  qed
qed

lemma find_bundles_eq:
  assumes "distinct (map fst (bundles nb))"
  shows "find_bundles_and_blocks_to_fetch nb missing =
           Inr (map (\<lambda>(b, ms). (b, needed_of missing ms)) (scheduled nb missing),
                missing - (\<Union>(b, ms) \<in> set (scheduled nb missing). set (needed_of missing ms)))"
proof -
  let ?ne = "filter (\<lambda>(b, ms). ms \<noteq> []) (bundles nb)"
  let ?info = "map (\<lambda>(b, ms). (b, info_of missing ms)) ?ne"
  have keys: "map fst ?info = map fst ?ne" by (induction ?ne) auto
  have "distinct (map fst ?ne)" using assms by (simp add: distinct_map_filter)
  then have d: "distinct (map fst ?info)" by (simp only: keys)
  have flt: "filter (\<lambda>(b, i). percentNeeded i \<ge> 1 / 2) ?info =
             map (\<lambda>(b, ms). (b, info_of missing ms)) (scheduled nb missing)"
    by (induction "bundles nb") (auto simp: scheduled_def info_of_def filter_map comp_def
        split_def intro: filter_cong)
  have "bundles_to_download_loop ?info [] missing =
          ([] @ map (\<lambda>(b, i). (b, blocksNeeded i))
                  (map (\<lambda>(b, ms). (b, info_of missing ms)) (scheduled nb missing)),
           missing - (\<Union>(b, i) \<in> set (map (\<lambda>(b, ms). (b, info_of missing ms))
                        (scheduled nb missing)). set (blocksNeeded i)))"
    using bundles_to_download_loop_eq [OF d, of "[]" missing] by (simp only: flt) simp
  also have "map (\<lambda>(b, i). (b, blocksNeeded i))
                  (map (\<lambda>(b, ms). (b, info_of missing ms)) (scheduled nb missing)) =
             map (\<lambda>(b, ms). (b, needed_of missing ms)) (scheduled nb missing)"
    by (simp add: split_def info_of_def)
  also have "(\<Union>(b, i) \<in> set (map (\<lambda>(b, ms). (b, info_of missing ms))
                        (scheduled nb missing)). set (blocksNeeded i)) =
             (\<Union>(b, ms) \<in> set (scheduled nb missing). set (needed_of missing ms))"
    by (simp add: split_def info_of_def)
  finally show ?thesis
    by (simp add: find_bundles_and_blocks_to_fetch_def analyze_bundles_eq [OF assms]
        bundles_to_download_def)
qed

subsection \<open>C10: the division is guarded\<close>

text \<open>
  C10. For every manifest and every set of missing blocks, \<open>_analyze_bundles\<close> returns
  normally: the quotient \<open>|needed| / |members|\<close> is computed only behind the check
  \<open>bundle_size > 0\<close>, so \<open>ZeroDivisionError\<close> is never raised. Every bundle that gets an
  analysis entry, and hence every bundle of the fetch plan, has at least one member; a
  bundle whose member map is empty is not in the plan.
\<close>

theorem analyze_bundles_never_divides_by_zero:
  "(\<exists>info. analyze_bundles nb missing = Inr info \<and>
      (\<forall>b \<in> fst ` set info. \<exists>ms. (b, ms) \<in> set (bundles nb) \<and> ms \<noteq> [])) \<and>
   (\<exists>plan rem. find_bundles_and_blocks_to_fetch nb missing = Inr (plan, rem) \<and>
      (\<forall>b \<in> fst ` set plan. \<exists>ms. (b, ms) \<in> set (bundles nb) \<and> ms \<noteq> []) \<and>
      (distinct (map fst (bundles nb)) \<longrightarrow>
         (\<forall>b. map_of (bundles nb) b = Some [] \<longrightarrow> map_of plan b = None)))"
proof -
  obtain info where info: "analyze_bundles nb missing = Inr info"
    using analyze_bundles_loop_total [of "bundles nb" missing "[]"]
    by (auto simp: analyze_bundles_def)
  have info_keys: "\<exists>ms. (b, ms) \<in> set (bundles nb) \<and> ms \<noteq> []" if "b \<in> fst ` set info" for b
    using analyze_bundles_loop_keys [of "bundles nb" missing "[]" info b] info that
    by (simp add: analyze_bundles_def)
  obtain plan rem where pr: "bundles_to_download info missing = (plan, rem)"
    by (cases "bundles_to_download info missing")
  have find: "find_bundles_and_blocks_to_fetch nb missing = Inr (plan, rem)"
    by (simp add: find_bundles_and_blocks_to_fetch_def info pr)
  have plan_keys: "\<exists>ms. (b, ms) \<in> set (bundles nb) \<and> ms \<noteq> []" if "b \<in> fst ` set plan" for b
  proof -
    have "b \<in> fst ` set info"
      using bundles_to_download_loop_keys [of info "[]" missing plan rem b] pr that
      by (simp add: bundles_to_download_def)
    then show ?thesis by (rule info_keys)
  qed
  have empty_out: "map_of plan b = None"
    if d: "distinct (map fst (bundles nb))" and e: "map_of (bundles nb) b = Some []" for b
  proof (rule ccontr)
    assume "map_of plan b \<noteq> None"
    then have "b \<in> fst ` set plan" by (simp add: map_of_eq_None_iff)
    then obtain ms where ms: "(b, ms) \<in> set (bundles nb)" "ms \<noteq> []"
      using plan_keys by blast
    from d ms(1) have "map_of (bundles nb) b = Some ms" by simp
    with e ms(2) show False by simp
  qed
  show ?thesis using info info_keys find plan_keys empty_out by blast
qed

theorem analyze_bundles_never_divides_by_zero_witness:
  "find_bundles_and_blocks_to_fetch
     \<lparr>files = [],
      bundles = [(''E'', []), (''B'', [\<lparr>hash = ''h1'', length_bytes = 3, blockOffset = 0\<rparr>])]\<rparr>
     {''h1''} = Inr ([(''B'', [''h1''])], {}) \<and>
   map_of [(''B'', [''h1''])] ''E'' = None"
  using analyze_bundles_never_divides_by_zero
    [of "\<lparr>files = [],
      bundles = [(''E'', []), (''B'', [\<lparr>hash = ''h1'', length_bytes = 3, blockOffset = 0\<rparr>])]\<rparr>"
        "{''h1''}"]
  by (simp add: find_bundles_and_blocks_to_fetch_def analyze_bundles_def py_truediv_def
      bundles_to_download_def)

subsection \<open>C2: the bundle threshold\<close>

text \<open>
  C2, as stated, lets every needed member of an unscheduled bundle stay in the residual
  set, for every manifest. That fails when a hash is a member of two bundles: here
  bundle \<open>A\<close> (one member, needed) is scheduled and takes \<open>h\<close> out of the residual set,
  while bundle \<open>B\<close> (one needed member of three, below the threshold) is not scheduled
  although its needed member \<open>h\<close> is no longer in the residual set.
\<close>

theorem unscheduled_bundle_member_leaves_residual:
  "find_bundles_and_blocks_to_fetch
     \<lparr>files = [],
      bundles = [(''A'', [\<lparr>hash = ''h'', length_bytes = 1, blockOffset = 0\<rparr>]),
                 (''B'', [\<lparr>hash = ''h'', length_bytes = 1, blockOffset = 0\<rparr>,
                          \<lparr>hash = ''x'', length_bytes = 1, blockOffset = 1\<rparr>,
                          \<lparr>hash = ''y'', length_bytes = 1, blockOffset = 2\<rparr>])]\<rparr>
     {''h''} = Inr ([(''A'', [''h''])], {}) \<and>
   needed_of {''h''} [\<lparr>hash = ''h'', length_bytes = 1, blockOffset = 0\<rparr>,
                      \<lparr>hash = ''x'', length_bytes = 1, blockOffset = 1\<rparr>,
                      \<lparr>hash = ''y'', length_bytes = 1, blockOffset = 2\<rparr>] = [''h''] \<and>
   real (length [''h'']) / real (length [''h'', ''x'', ''y'']) < 1 / 2 \<and>
   map_of [(''A'', [''h''])] ''B'' = None \<and> ''h'' \<notin> ({} :: string set)"
  by (simp add: find_bundles_and_blocks_to_fetch_def analyze_bundles_def py_truediv_def
      bundles_to_download_def needed_of_def)

text \<open>
  C2, amended. For every manifest (a dict of bundles, so with distinct bundle ids) and
  every set of missing hashes the planner returns a plan and a residual set such that,
  for each non-empty bundle: if the fraction of its members that are missing is at least
  \<open>0.5\<close>, the bundle is in the plan with exactly its needed member hashes (in member
  order) and none of them is in the residual set; otherwise the bundle is not in the plan
  and each of its needed members is in the residual set unless it is also a needed member
  of a bundle in the plan. The needed lists of the plan and the residual set are disjoint
  and together are exactly the missing set.
\<close>

theorem planner_threshold:
  assumes "distinct (map fst (bundles nb))"
  shows "\<exists>plan rem. find_bundles_and_blocks_to_fetch nb missing = Inr (plan, rem) \<and>
     (\<forall>(b, ms) \<in> set (bundles nb). ms \<noteq> [] \<longrightarrow>
        (real (length (needed_of missing ms)) / real (length ms) \<ge> 1 / 2 \<longrightarrow>
           map_of plan b = Some (needed_of missing ms) \<and>
           set (needed_of missing ms) \<inter> rem = {}) \<and>
        (real (length (needed_of missing ms)) / real (length ms) < 1 / 2 \<longrightarrow>
           map_of plan b = None \<and>
           (\<forall>h \<in> set (needed_of missing ms).
              h \<in> rem \<or> (\<exists>b' n'. map_of plan b' = Some n' \<and> h \<in> set n')))) \<and>
     (\<Union>(b, n) \<in> set plan. set n) \<union> rem = missing \<and>
     (\<Union>(b, n) \<in> set plan. set n) \<inter> rem = {}"
proof -
  let ?S = "scheduled nb missing"
  let ?plan = "map (\<lambda>(b, ms). (b, needed_of missing ms)) ?S"
  let ?U = "(\<Union>(b, ms) \<in> set ?S. set (needed_of missing ms))"
  let ?rem = "missing - ?U"
  have find: "find_bundles_and_blocks_to_fetch nb missing = Inr (?plan, ?rem)"
    by (rule find_bundles_eq [OF assms])
  have dS: "distinct (map fst ?S)"
    using assms by (simp add: scheduled_def distinct_map_filter)
  have keys: "map fst ?plan = map fst ?S" by (induction ?S) auto
  have dplan: "distinct (map fst ?plan)" using dS by (simp only: keys)
  have in_plan: "map_of ?plan b = Some (needed_of missing ms)" if "(b, ms) \<in> set ?S" for b ms
  proof -
    have "(b, needed_of missing ms) \<in> set ?plan" using that by force
    with dplan show ?thesis by (rule map_of_is_SomeI)
  qed
  have plan_src: "\<exists>ms. (b, ms) \<in> set ?S \<and> n = needed_of missing ms"
    if "map_of ?plan b = Some n" for b n
    using map_of_SomeD [OF that] by auto
  have U_sub: "?U \<subseteq> missing" by (auto simp: needed_of_def)
  have U_plan: "(\<Union>(b, n) \<in> set ?plan. set n) = ?U" by (auto simp: split_def)
  have hi: "map_of ?plan b = Some (needed_of missing ms) \<and> set (needed_of missing ms) \<inter> ?rem = {}"
    if "(b, ms) \<in> set (bundles nb)" "ms \<noteq> []"
       "real (length (needed_of missing ms)) / real (length ms) \<ge> 1 / 2" for b ms
  proof -
    have S: "(b, ms) \<in> set ?S" using that by (simp add: scheduled_def)
    then have "set (needed_of missing ms) \<subseteq> ?U" by auto
    then show ?thesis using in_plan [OF S] by auto
  qed
  have lo: "map_of ?plan b = None \<and>
            (\<forall>h \<in> set (needed_of missing ms).
               h \<in> ?rem \<or> (\<exists>b' n'. map_of ?plan b' = Some n' \<and> h \<in> set n'))"
    if "(b, ms) \<in> set (bundles nb)" "ms \<noteq> []"
       "real (length (needed_of missing ms)) / real (length ms) < 1 / 2" for b ms
  proof
    show "map_of ?plan b = None"
    proof (rule ccontr)
      assume "map_of ?plan b \<noteq> None"
      then obtain n where "map_of ?plan b = Some n" by auto
      then obtain ms' where ms': "(b, ms') \<in> set ?S" using plan_src by blast
      then have "(b, ms') \<in> set (bundles nb)" by (simp add: scheduled_def)
      with assms that(1) have eq: "ms' = ms" by (meson eq_key_imp_eq_value)
      have "1 / 2 \<le> real (length (needed_of missing ms')) / real (length ms')"
        using ms' by (simp add: scheduled_def)
      then show False using that(3) unfolding eq by linarith
    qed
    show "\<forall>h \<in> set (needed_of missing ms).
            h \<in> ?rem \<or> (\<exists>b' n'. map_of ?plan b' = Some n' \<and> h \<in> set n')"
    proof
      fix h assume h: "h \<in> set (needed_of missing ms)"
      then have hm: "h \<in> missing" by (simp add: needed_of_def)
      show "h \<in> ?rem \<or> (\<exists>b' n'. map_of ?plan b' = Some n' \<and> h \<in> set n')"
      proof (cases "h \<in> ?U")
        case True
        then obtain b' ms' where "(b', ms') \<in> set ?S" "h \<in> set (needed_of missing ms')" by auto
        with in_plan show ?thesis by blast
      next
        case False
        with hm show ?thesis by simp
      qed
    qed
  qed
  have cover: "(\<Union>(b, n) \<in> set ?plan. set n) \<union> ?rem = missing"
    using U_sub by (simp only: U_plan) auto
  have disj: "(\<Union>(b, n) \<in> set ?plan. set n) \<inter> ?rem = {}"
    by (simp only: U_plan) auto
  have each: "\<forall>(b, ms) \<in> set (bundles nb). ms \<noteq> [] \<longrightarrow>
        (real (length (needed_of missing ms)) / real (length ms) \<ge> 1 / 2 \<longrightarrow>
           map_of ?plan b = Some (needed_of missing ms) \<and>
           set (needed_of missing ms) \<inter> ?rem = {}) \<and>
        (real (length (needed_of missing ms)) / real (length ms) < 1 / 2 \<longrightarrow>
           map_of ?plan b = None \<and>
           (\<forall>h \<in> set (needed_of missing ms).
              h \<in> ?rem \<or> (\<exists>b' n'. map_of ?plan b' = Some n' \<and> h \<in> set n')))"
    using hi lo by blast
  from find each cover disj show ?thesis by blast
qed

theorem planner_threshold_witness:
  "distinct (map fst (bundles
     \<lparr>files = [],
      bundles = [(''P'', [\<lparr>hash = ''a'', length_bytes = 1, blockOffset = 0\<rparr>,
                          \<lparr>hash = ''b'', length_bytes = 1, blockOffset = 1\<rparr>]),
                 (''Q'', [\<lparr>hash = ''c'', length_bytes = 1, blockOffset = 0\<rparr>,
                          \<lparr>hash = ''d'', length_bytes = 1, blockOffset = 1\<rparr>,
                          \<lparr>hash = ''e'', length_bytes = 1, blockOffset = 2\<rparr>])]\<rparr>)) \<and>
   find_bundles_and_blocks_to_fetch
     \<lparr>files = [],
      bundles = [(''P'', [\<lparr>hash = ''a'', length_bytes = 1, blockOffset = 0\<rparr>,
                          \<lparr>hash = ''b'', length_bytes = 1, blockOffset = 1\<rparr>]),
                 (''Q'', [\<lparr>hash = ''c'', length_bytes = 1, blockOffset = 0\<rparr>,
                          \<lparr>hash = ''d'', length_bytes = 1, blockOffset = 1\<rparr>,
                          \<lparr>hash = ''e'', length_bytes = 1, blockOffset = 2\<rparr>])]\<rparr>
     {''a'', ''c''} = Inr ([(''P'', [''a''])], {''c''})"
  using planner_threshold
    [of "\<lparr>files = [],
      bundles = [(''P'', [\<lparr>hash = ''a'', length_bytes = 1, blockOffset = 0\<rparr>,
                          \<lparr>hash = ''b'', length_bytes = 1, blockOffset = 1\<rparr>]),
                 (''Q'', [\<lparr>hash = ''c'', length_bytes = 1, blockOffset = 0\<rparr>,
                          \<lparr>hash = ''d'', length_bytes = 1, blockOffset = 1\<rparr>,
                          \<lparr>hash = ''e'', length_bytes = 1, blockOffset = 2\<rparr>])]\<rparr>"
        "{''a'', ''c''}"]
  by (simp add: find_bundles_and_blocks_to_fetch_def analyze_bundles_def py_truediv_def
      bundles_to_download_def insert_Diff_if)

section \<open>Files to patch\<close>

lemma concat_read_chunks: "fold (\<lambda>chunk fed. fed @ chunk) (read_chunks data) acc = acc @ data"
proof (induction data arbitrary: acc rule: read_chunks.induct)
  case (1 data)
  show ?case
  proof (cases "take 8192 data = []")
    case True
    then have "data = []" by (cases data) auto
    then show ?thesis by (simp add: read_chunks.simps [of "[]"])
  next
    case False
    then show ?thesis
      using "1.IH" [OF False, of "acc @ take 8192 data"]
      by (subst read_chunks.simps) simp
  qed
qed

lemma hash_file_eq: "hash_file sha256 data = sha256 data"
  by (simp add: hash_file_def concat_read_chunks)

lemma get_local_file_hashes_loop_lookup:
  "distinct (map fst tree) \<Longrightarrow>
   map_of (get_local_file_hashes_loop sha256 tree acc) p =
     (case map_of tree p of
        None \<Rightarrow> map_of acc p
      | Some f \<Rightarrow> if readable f then Some (sha256 (content f)) else map_of acc p)"
proof (induction tree arbitrary: acc)
  case Nil
  then show ?case by simp
next
  case (Cons e tree)
  obtain q f where e: "e = (q, f)" by (cases e)
  have d: "distinct (map fst tree)" and q: "q \<notin> fst ` set tree" using Cons.prems e by auto
  from q have none: "map_of tree q = None" by (simp add: map_of_eq_None_iff)
  show ?case
    using Cons.IH [OF d] none
    by (auto simp: e hash_file_eq update_conv' split: option.splits)
qed

lemma get_local_file_hashes_lookup:
  "distinct (map fst tree) \<Longrightarrow>
   map_of (get_local_file_hashes sha256 tree) p =
     (case map_of tree p of
        None \<Rightarrow> None
      | Some f \<Rightarrow> if readable f then Some (sha256 (content f)) else None)"
  by (simp add: get_local_file_hashes_def get_local_file_hashes_loop_lookup split: option.splits)

lemma get_files_to_patch_loop_eq:
  "get_files_to_patch_loop fs local_files ok acc =
     acc @ map fst (filter (\<lambda>(filename, r).
        map_of local_files filename = None \<or>
        Some (file_hash r) \<noteq> map_of local_files filename \<or> \<not> ok filename) fs)"
  by (induction fs arbitrary: acc) auto

lemma str_nat_Suc_0: "str_nat (Suc 0) = ''1''"
  by code_simp

subsection \<open>C1: which files are selected\<close>

text \<open>
  C1. A path is in \<open>files_to_patch\<close> if and only if it is a file of the manifest and at
  least one of the following holds: it is not present in the local install tree; its
  file-record hash is not the hash derived from the installed file (a file that cannot be
  opened has no derived hash); its changelog entry is missing, or the stored size or
  modification time differs from the file's current one. So a file that is present with
  a matching derived hash and a valid changelog entry is not selected.
\<close>

theorem files_to_patch_iff:
  assumes "distinct (map fst (files nb))" and "distinct (map fst tree)"
  shows "filename \<in> set (get_files_to_patch nb (get_local_file_hashes sha256 tree)
                            (is_valid tree data)) \<longleftrightarrow>
         (\<exists>r. map_of (files nb) filename = Some r \<and>
            (map_of tree filename = None \<or>
             local_hash sha256 tree filename \<noteq> Some (file_hash r) \<or>
             map_of data filename = None \<or>
             (\<exists>stored f. map_of data filename = Some stored \<and> map_of tree filename = Some f \<and>
                (size stored \<noteq> str_nat (length (content f)) \<or> lastMod stored \<noteq> mtime f))))"
proof -
  let ?lf = "get_local_file_hashes sha256 tree"
  have lf: "map_of ?lf filename = local_hash sha256 tree filename"
    by (simp add: get_local_file_hashes_lookup [OF assms(2)] local_hash_def hash_file_eq
        split: option.splits)
  have present: "map_of tree filename = None \<Longrightarrow> local_hash sha256 tree filename = None"
    by (simp add: local_hash_def)
  have valid: "\<not> is_valid tree data filename \<longleftrightarrow>
        map_of tree filename = None \<or> map_of data filename = None \<or>
        (\<exists>stored f. map_of data filename = Some stored \<and> map_of tree filename = Some f \<and>
           (size stored \<noteq> str_nat (length (content f)) \<or> lastMod stored \<noteq> mtime f))"
    by (auto simp: is_valid_def get_file_metadata_def split: option.splits)
  have mem: "(filename, r) \<in> set (files nb) \<longleftrightarrow> map_of (files nb) filename = Some r" for r
    using assms(1) by (auto dest: map_of_SomeD)
  have "filename \<in> set (get_files_to_patch nb ?lf (is_valid tree data)) \<longleftrightarrow>
        (\<exists>r. (filename, r) \<in> set (files nb) \<and>
           (map_of ?lf filename = None \<or> Some (file_hash r) \<noteq> map_of ?lf filename \<or>
            \<not> is_valid tree data filename))"
    by (force simp: get_files_to_patch_def get_files_to_patch_loop_eq)
  also have "\<dots> \<longleftrightarrow>
        (\<exists>r. map_of (files nb) filename = Some r \<and>
           (local_hash sha256 tree filename = None \<or>
            Some (file_hash r) \<noteq> local_hash sha256 tree filename \<or>
            \<not> is_valid tree data filename))"
    by (simp only: mem lf)
  finally show ?thesis
    unfolding valid using present by (metis option.distinct(1))
qed

theorem files_to_patch_iff_witness:
  "distinct (map fst (files \<lparr>files = [(''a'', \<lparr>file_hash = ''x'', blocks = [''k'']\<rparr>),
                                      (''b'', \<lparr>file_hash = ''y'', blocks = [''l'']\<rparr>)],
                             bundles = []\<rparr>)) \<and>
   distinct (map fst [(''a'', \<lparr>readable = True, content = ''x'', mtime = ''1.5''\<rparr>),
                      (''b'', \<lparr>readable = True, content = ''z'', mtime = ''2.5''\<rparr>)]) \<and>
   get_files_to_patch
     \<lparr>files = [(''a'', \<lparr>file_hash = ''x'', blocks = [''k'']\<rparr>),
               (''b'', \<lparr>file_hash = ''y'', blocks = [''l'']\<rparr>)],
      bundles = []\<rparr>
     (get_local_file_hashes (\<lambda>d. d)
        [(''a'', \<lparr>readable = True, content = ''x'', mtime = ''1.5''\<rparr>),
         (''b'', \<lparr>readable = True, content = ''z'', mtime = ''2.5''\<rparr>)])
     (is_valid
        [(''a'', \<lparr>readable = True, content = ''x'', mtime = ''1.5''\<rparr>),
         (''b'', \<lparr>readable = True, content = ''z'', mtime = ''2.5''\<rparr>)]
        [(''a'', \<lparr>size = ''1'', lastMod = ''1.5''\<rparr>),
         (''b'', \<lparr>size = ''1'', lastMod = ''2.5''\<rparr>)]) = [''b'']"
  using files_to_patch_iff
    [of "\<lparr>files = [(''a'', \<lparr>file_hash = ''x'', blocks = [''k'']\<rparr>),
                    (''b'', \<lparr>file_hash = ''y'', blocks = [''l'']\<rparr>)],
           bundles = []\<rparr>"
        "[(''a'', \<lparr>readable = True, content = ''x'', mtime = ''1.5''\<rparr>),
          (''b'', \<lparr>readable = True, content = ''z'', mtime = ''2.5''\<rparr>)]"
        "''b''" "\<lambda>d. d"
        "[(''a'', \<lparr>size = ''1'', lastMod = ''1.5''\<rparr>),
          (''b'', \<lparr>size = ''1'', lastMod = ''2.5''\<rparr>)]"]
  by (simp add: get_files_to_patch_def get_local_file_hashes_def hash_file_eq is_valid_def
      get_file_metadata_def str_nat_Suc_0 local_hash_def)

section \<open>Applier\<close>

lemma write_blocks_all:
  "map (map_of pool) bs = map Some ds \<Longrightarrow> \<forall>j < length bs. write_ok (i + j) \<Longrightarrow>
   write_blocks bs pool write_ok i written = (None, written @ concat ds)"
proof (induction bs arbitrary: i written ds)
  case Nil
  then show ?case by simp
next
  case (Cons b bs)
  from Cons.prems(1) obtain d ds' where ds: "ds = d # ds'" "map_of pool b = Some d"
    "map (map_of pool) bs = map Some ds'"
    by (cases ds) auto
  have ok0: "write_ok i" using Cons.prems(2) by force
  have okr: "\<forall>j < length bs. write_ok (i + 1 + j)"
  proof (intro allI impI)
    fix j assume "j < length bs"
    then have "Suc j < length (b # bs)" by simp
    with Cons.prems(2) have "write_ok (i + Suc j)" by blast
    then show "write_ok (i + 1 + j)" by simp
  qed
  show ?case
    using Cons.IH [OF ds(3) okr, of "written @ d"] ds(1,2) ok0 by simp
qed

lemma write_blocks_missing:
  "b \<in> set bs \<Longrightarrow> map_of pool b = None \<Longrightarrow>
   \<exists>e out. write_blocks bs pool write_ok i written = (Some e, out)"
proof (induction bs arbitrary: i written)
  case Nil
  then show ?case by simp
next
  case (Cons a bs)
  show ?case
  proof (cases "map_of pool a")
    case None
    then show ?thesis by simp
  next
    case (Some d)
    with Cons.prems have "b \<in> set bs" by auto
    from Cons.IH [OF this Cons.prems(2)] Some show ?thesis by simp
  qed
qed

lemma write_blocks_refused:
  "j < length bs \<Longrightarrow> \<not> write_ok (i + j) \<Longrightarrow>
   \<exists>e out. write_blocks bs pool write_ok i written = (Some e, out)"
proof (induction bs arbitrary: i j written)
  case Nil
  then show ?case by simp
next
  case (Cons a bs)
  show ?case
  proof (cases "map_of pool a")
    case None
    then show ?thesis by simp
  next
    case (Some d)
    show ?thesis
    proof (cases "write_ok i")
      case False
      with Some show ?thesis by simp
    next
      case True
      with Cons.prems obtain j' where j': "j = Suc j'" by (cases j) auto
      have 1: "j' < length bs" using Cons.prems(1) j' by simp
      have 2: "\<not> write_ok (i + 1 + j')" using Cons.prems(2) j' by simp
      from Cons.IH [OF 1 2] Some True show ?thesis by simp
    qed
  qed
qed

lemma map_of_remove_if_exists: "map_of (remove_if_exists p t) = (map_of t)(p := None)"
  by (auto simp: remove_if_exists_def delete_conv')

lemma map_of_os_replace:
  "map_of t src = Some f \<Longrightarrow> src \<noteq> dst \<Longrightarrow>
   \<exists>t'. os_replace src dst t = Inr t' \<and> map_of t' = ((map_of t)(src := None))(dst \<mapsto> f)"
  by (simp add: os_replace_def update_conv' delete_conv')

lemma apply_patch_to_file_error:
  assumes "map_of tree temp_path = None"
    and "apply_patch_to_file now temp_path write_ok filename nb pool tree = (Some err, tree')"
  shows "map_of tree' = map_of tree"
proof (cases "map_of (files nb) filename")
  case None
  with assms show ?thesis
    by (auto simp: apply_patch_to_file_def map_of_remove_if_exists update_conv')
next
  case (Some r)
  obtain e written where w: "write_blocks (blocks r) pool write_ok 0 [] = (e, written)"
    by (cases "write_blocks (blocks r) pool write_ok 0 []")
  show ?thesis
  proof (cases e)
    case None
    let ?f = "\<lparr>readable = True, content = written, mtime = now\<rparr>"
    let ?t2 = "AList.update temp_path ?f
                 (AList.update temp_path \<lparr>readable = True, content = [], mtime = now\<rparr> tree)"
    let ?t3 = "if map_of ?t2 filename \<noteq> None then AList.delete filename ?t2 else ?t2"
    have m3: "map_of ?t3 = (map_of tree)(temp_path \<mapsto> ?f, filename := None)"
      by (auto simp: update_conv' delete_conv')
    show ?thesis
    proof (cases "temp_path = filename")
      case True
      have "map_of ?t3 temp_path = ((map_of tree)(temp_path \<mapsto> ?f, filename := None)) temp_path"
        by (simp only: m3)
      with True have gone: "map_of ?t3 temp_path = None" by simp
      have "os_replace temp_path filename ?t3 = Inl OSError"
        unfolding os_replace_def by (simp only: gone option.simps)
      then have "apply_patch_to_file now temp_path write_ok filename nb pool tree =
                   (Some OSError, remove_if_exists temp_path ?t3)"
        using Some w None by (simp add: apply_patch_to_file_def Let_def)
      with assms(2) have t': "tree' = remove_if_exists temp_path ?t3" by simp
      have "map_of tree' = (map_of ?t3)(temp_path := None)"
        by (simp only: t' map_of_remove_if_exists)
      also have "\<dots> = ((map_of tree)(temp_path \<mapsto> ?f, filename := None))(temp_path := None)"
        by (simp only: m3)
      also have "\<dots> = map_of tree" using assms(1) True by (auto simp: fun_eq_iff)
      finally show ?thesis .
    next
      case False
      have "map_of ?t3 temp_path = ((map_of tree)(temp_path \<mapsto> ?f, filename := None)) temp_path"
        by (simp only: m3)
      with False have "map_of ?t3 temp_path = Some ?f" by simp
      then have "\<exists>t4. os_replace temp_path filename ?t3 = Inr t4"
        unfolding os_replace_def by (simp only: option.simps) simp
      then obtain t4 where "os_replace temp_path filename ?t3 = Inr t4" by blast
      then have "fst (apply_patch_to_file now temp_path write_ok filename nb pool tree) = None"
        using Some w None by (simp add: apply_patch_to_file_def Let_def)
      with assms(2) show ?thesis by simp
    qed
  next
    case (Some e')
    with assms \<open>map_of (files nb) filename = Some r\<close> w show ?thesis
      by (auto simp: apply_patch_to_file_def map_of_remove_if_exists update_conv')
  qed
qed

lemma apply_patch_to_file_success:
  assumes fresh: "map_of tree temp_path = None" and ne: "temp_path \<noteq> filename"
    and r: "map_of (files nb) filename = Some r"
    and w: "write_blocks (blocks r) pool write_ok 0 [] = (None, written)"
  shows "\<exists>tree'. apply_patch_to_file now temp_path write_ok filename nb pool tree = (None, tree') \<and>
           map_of tree' =
             (map_of tree)(filename \<mapsto> \<lparr>readable = True, content = written, mtime = now\<rparr>)"
proof -
  let ?f = "\<lparr>readable = True, content = written, mtime = now\<rparr>"
  let ?t1 = "AList.update temp_path \<lparr>readable = True, content = [], mtime = now\<rparr> tree"
  let ?t2 = "AList.update temp_path ?f ?t1"
  let ?t3 = "if map_of ?t2 filename \<noteq> None then AList.delete filename ?t2 else ?t2"
  have m2: "map_of ?t2 = (map_of tree)(temp_path \<mapsto> ?f)" by (simp add: update_conv')
  have m3: "map_of ?t3 = (map_of tree)(temp_path \<mapsto> ?f, filename := None)"
    using m2 by (auto simp: delete_conv')
  have src: "map_of ?t3 temp_path = Some ?f" using ne by (simp only: m3) simp
  from map_of_os_replace [OF src ne] obtain t4 where
    t4: "os_replace temp_path filename ?t3 = Inr t4"
        "map_of t4 = ((map_of ?t3)(temp_path := None))(filename \<mapsto> ?f)"
    by blast
  have m5: "map_of (remove_if_exists temp_path t4) = (map_of tree)(filename \<mapsto> ?f)"
    unfolding map_of_remove_if_exists t4(2) m3 using fresh ne by (auto simp: fun_eq_iff)
  have "apply_patch_to_file now temp_path write_ok filename nb pool tree =
          (None, remove_if_exists temp_path t4)"
    using t4(1) by (simp add: apply_patch_to_file_def r w Let_def)
  with m5 show ?thesis by blast
qed

subsection \<open>C7: a file is replaced atomically\<close>

text \<open>
  C7. Apply one file of the manifest, with a temporary file that \<open>mkstemp\<close> created fresh
  and that is not the final path. If the function ends in an error then no temporary
  file remains and every installed file, the one at the final path included, is as it was
  before; this is what happens when a block hash of the record is absent from the pool
  or a write is refused. If every block is in the pool and every write is accepted, the
  function returns normally, the content at the final path is the concatenation of
  \<open>pool[hash]\<close> over the record's block hashes in order, no temporary file remains and no
  other file has changed.
\<close>

theorem apply_patch_to_file_atomic:
  assumes "map_of tree temp_path = None" and "temp_path \<noteq> filename"
    and "map_of (files nb) filename = Some r"
  shows "(\<forall>err tree'.
            apply_patch_to_file now temp_path write_ok filename nb pool tree = (Some err, tree')
            \<longrightarrow> map_of tree' temp_path = None \<and> map_of tree' = map_of tree) \<and>
         ((\<exists>b \<in> set (blocks r). map_of pool b = None) \<or> (\<exists>j < length (blocks r). \<not> write_ok j)
            \<longrightarrow> (\<exists>err tree'.
                  apply_patch_to_file now temp_path write_ok filename nb pool tree = (Some err, tree') \<and>
                  map_of tree' temp_path = None \<and> map_of tree' filename = map_of tree filename)) \<and>
         (\<forall>ds. map (map_of pool) (blocks r) = map Some ds \<and> (\<forall>j < length (blocks r). write_ok j)
            \<longrightarrow> (\<exists>tree' f.
                  apply_patch_to_file now temp_path write_ok filename nb pool tree = (None, tree') \<and>
                  map_of tree' filename = Some f \<and> content f = concat ds \<and>
                  map_of tree' temp_path = None \<and>
                  (\<forall>p. p \<noteq> filename \<longrightarrow> map_of tree' p = map_of tree p)))"
proof (intro conjI allI impI)
  fix err tree'
  assume a: "apply_patch_to_file now temp_path write_ok filename nb pool tree = (Some err, tree')"
  show "map_of tree' = map_of tree" by (rule apply_patch_to_file_error [OF assms(1) a])
  then show "map_of tree' temp_path = None" using assms(1) by simp
next
  assume "(\<exists>b \<in> set (blocks r). map_of pool b = None) \<or> (\<exists>j < length (blocks r). \<not> write_ok j)"
  then have "\<exists>e out. write_blocks (blocks r) pool write_ok 0 [] = (Some e, out)"
  proof
    assume "\<exists>b \<in> set (blocks r). map_of pool b = None"
    then obtain b where "b \<in> set (blocks r)" "map_of pool b = None" by blast
    then show ?thesis by (rule write_blocks_missing)
  next
    assume "\<exists>j < length (blocks r). \<not> write_ok j"
    then obtain j where "j < length (blocks r)" "\<not> write_ok (0 + j)" by auto
    then show ?thesis by (rule write_blocks_refused)
  qed
  then obtain e out where w: "write_blocks (blocks r) pool write_ok 0 [] = (Some e, out)"
    by blast
  obtain tree' where a:
    "apply_patch_to_file now temp_path write_ok filename nb pool tree = (Some e, tree')"
    by (simp add: apply_patch_to_file_def assms(3) w)
  have "map_of tree' = map_of tree" by (rule apply_patch_to_file_error [OF assms(1) a])
  with a assms(1) show "\<exists>err tree'.
      apply_patch_to_file now temp_path write_ok filename nb pool tree = (Some err, tree') \<and>
      map_of tree' temp_path = None \<and> map_of tree' filename = map_of tree filename"
    by auto
next
  fix ds
  assume h: "map (map_of pool) (blocks r) = map Some ds \<and> (\<forall>j < length (blocks r). write_ok j)"
  then have ok: "\<forall>j < length (blocks r). write_ok (0 + j)" by simp
  have w: "write_blocks (blocks r) pool write_ok 0 [] = (None, [] @ concat ds)"
    using h by (intro write_blocks_all [OF _ ok]) simp
  then have w': "write_blocks (blocks r) pool write_ok 0 [] = (None, concat ds)" by simp
  from apply_patch_to_file_success [OF assms w', of now]
  obtain tree' where t:
    "apply_patch_to_file now temp_path write_ok filename nb pool tree = (None, tree')"
    "map_of tree' = (map_of tree)(filename \<mapsto> \<lparr>readable = True, content = concat ds, mtime = now\<rparr>)"
    by blast
  show "\<exists>tree' f.
      apply_patch_to_file now temp_path write_ok filename nb pool tree = (None, tree') \<and>
      map_of tree' filename = Some f \<and> content f = concat ds \<and>
      map_of tree' temp_path = None \<and> (\<forall>p. p \<noteq> filename \<longrightarrow> map_of tree' p = map_of tree p)"
    using t assms(1,2) by (intro exI [of _ tree']) auto
qed

theorem apply_patch_to_file_atomic_witness:
  "map_of [(''f'', \<lparr>readable = True, content = ''old'', mtime = ''1.0''\<rparr>)] ''tmpq'' = None \<and>
   ''tmpq'' \<noteq> ''f'' \<and>
   map_of (files \<lparr>files = [(''f'', \<lparr>file_hash = ''x'', blocks = [''h1'', ''h2'']\<rparr>)],
                   bundles = []\<rparr>) ''f''
     = Some \<lparr>file_hash = ''x'', blocks = [''h1'', ''h2'']\<rparr> \<and>
   apply_patch_to_file ''9.0'' ''tmpq'' (\<lambda>i. True) ''f''
     \<lparr>files = [(''f'', \<lparr>file_hash = ''x'', blocks = [''h1'', ''h2'']\<rparr>)], bundles = []\<rparr>
     [(''h1'', ''ab''), (''h2'', ''cd'')]
     [(''f'', \<lparr>readable = True, content = ''old'', mtime = ''1.0''\<rparr>)]
     = (None, [(''f'', \<lparr>readable = True, content = ''abcd'', mtime = ''9.0''\<rparr>)]) \<and>
   apply_patch_to_file ''9.0'' ''tmpq'' (\<lambda>i. True) ''f''
     \<lparr>files = [(''f'', \<lparr>file_hash = ''x'', blocks = [''h1'', ''h2'']\<rparr>)], bundles = []\<rparr>
     [(''h1'', ''ab'')]
     [(''f'', \<lparr>readable = True, content = ''old'', mtime = ''1.0''\<rparr>)]
     = (Some KeyError,
        [(''f'', \<lparr>readable = True, content = ''old'', mtime = ''1.0''\<rparr>)])"
proof -
  let ?tree = "[(''f'', \<lparr>readable = True, content = ''old'', mtime = ''1.0''\<rparr>)]"
  let ?nb = "\<lparr>files = [(''f'', \<lparr>file_hash = ''x'', blocks = [''h1'', ''h2'']\<rparr>)], bundles = []\<rparr>"
  have h1: "map_of ?tree ''tmpq'' = None" by simp
  have h2: "''tmpq'' \<noteq> ''f''" by simp
  have h3: "map_of (files ?nb) ''f'' = Some \<lparr>file_hash = ''x'', blocks = [''h1'', ''h2'']\<rparr>"
    by simp
  have ok: "apply_patch_to_file ''9.0'' ''tmpq'' (\<lambda>i. True) ''f'' ?nb
              [(''h1'', ''ab''), (''h2'', ''cd'')] ?tree
            = (None, [(''f'', \<lparr>readable = True, content = ''abcd'', mtime = ''9.0''\<rparr>)])"
    by (simp add: apply_patch_to_file_def remove_if_exists_def os_replace_def)
  have ko: "apply_patch_to_file ''9.0'' ''tmpq'' (\<lambda>i. True) ''f'' ?nb [(''h1'', ''ab'')] ?tree
            = (Some KeyError, ?tree)"
    by (simp add: apply_patch_to_file_def remove_if_exists_def os_replace_def)
  from apply_patch_to_file_atomic [OF h1 h2 h3, of "''9.0''" "\<lambda>i. True" "[(''h1'', ''ab'')]"] ko
  have "map_of ?tree ''tmpq'' = None" by blast
  with h2 h3 ok ko show ?thesis by blast
qed

section \<open>Cleaner\<close>

subsection \<open>C9: nested \<open>.DS_Store\<close> files\<close>

text \<open>
  C9 says that the cleaner keeps every file whose basename contains \<open>.DS_Store\<close>, at any
  depth, together with its changelog entry. The cleaner compares the whole relative path
  with \<open>.DS_Store\<close>, so only the file at the root of the install tree is kept: here
  \<open>sub/.DS_Store\<close>, which is not in the manifest, is deleted and its changelog entry
  dropped, while \<open>.DS_Store\<close> at the root survives and the manifest file \<open>a\<close> gets its
  metadata recorded.
\<close>

theorem cleaner_removes_nested_ds_store:
  "cleaner_run
     \<lparr>files = [(''a'', \<lparr>file_hash = ''x'', blocks = [''k'']\<rparr>)], bundles = []\<rparr>
     ([(''sub/.DS_Store'', \<lparr>readable = True, content = ''d'', mtime = ''1.0''\<rparr>),
       (''.DS_Store'', \<lparr>readable = True, content = ''e'', mtime = ''2.0''\<rparr>),
       (''a'', \<lparr>readable = True, content = ''f'', mtime = ''3.0''\<rparr>)],
      [(''sub/.DS_Store'', \<lparr>size = ''1'', lastMod = ''1.0''\<rparr>)])
   = ([(''.DS_Store'', \<lparr>readable = True, content = ''e'', mtime = ''2.0''\<rparr>),
       (''a'', \<lparr>readable = True, content = ''f'', mtime = ''3.0''\<rparr>)],
      [(''a'', \<lparr>size = ''1'', lastMod = ''3.0''\<rparr>)])"
  by (simp add: cleaner_run_def cleanup_file_def remove_file_def update_metadata_def
      get_file_metadata_def startswith_def str_nat_Suc_0)

section \<open>Dictionary training\<close>

lemma train_without_regen:
  "writeBlockFiles_dict train sample None data bs True False =
     (let s = (if length data > 2000 then sample data 2000 else data)
      in (Some (train bs s), Some (train bs s)))"
  by (simp add: writeBlockFiles_dict_def load_or_train_dict_def Let_def)

lemma train_with_regen_no_file:
  "writeBlockFiles_dict train sample None data bs True True =
     (Some (train bs data), Some (train bs data))"
  by (simp add: writeBlockFiles_dict_def load_or_train_dict_def Let_def)

subsection \<open>C8: regenerating an existing dictionary\<close>

text \<open>
  C8 says that with compression and \<open>regen_dict\<close> a new dictionary is trained from all raw
  blocks even when a dictionary file exists. \<open>load_or_train_dict\<close> returns the content of
  an existing file before it looks at \<open>samples\<close>: with a file \<open>old\<close> at the dictionary path
  the dictionary in use is \<open>old\<close>, whatever the trainer would produce, and the file stays.
\<close>

theorem regen_dict_keeps_existing_dictionary:
  "writeBlockFiles_dict train_dictionary random_sample (Some old) uncompressed_block_data
     blockSize True True = (Some old, Some old)"
  by (simp add: writeBlockFiles_dict_def load_or_train_dict_def)

section \<open>Downloader\<close>

subsection \<open>C6: part content that ends in line-break bytes\<close>

text \<open>
  C6 says that each matched part's content bytes are stored exactly, also when they end
  in \<open>0x0D\<close> or \<open>0x0A\<close>. The part below answers the requested range \<open>0-2\<close> with the three
  content bytes \<open>a\<close>, \<open>b\<close>, \<open>0x0A\<close>, followed by the line break that ends the part.
  \<open>rstrip(b'\r\n')\<close> strips every trailing \<open>0x0D\<close> and \<open>0x0A\<close>, so the block stored under
  \<open>h\<close> is the two bytes \<open>ab\<close>.
\<close>

theorem multipart_strips_trailing_newline_bytes:
  "process_multipart_response None
     (''--B'' @ CRLF @ ''Content-Range: bytes 0-2/10'' @ CRLF @ CRLF @
      (''ab'' @ [LF]) @ CRLF @ ''--B--'' @ CRLF)
     ''B'' [\<lparr>start = 0, end_pos = 2, block_hash = ''h''\<rparr>] []
   = Inr [(''h'', ''ab'')] \<and> ''ab'' \<noteq> ''ab'' @ [LF]"
  by code_simp

section \<open>Producer\<close>

lemma old_bundles_loop_lists:
  "old_bundles_loop sha256 bs (data, S) =
     (case old_lists bs S of
        Inl e \<Rightarrow> Inl e
      | Inr (L, S') \<Rightarrow> Inr (fold (createBundle sha256) L data, S'))"
proof (induction bs arbitrary: data S)
  case Nil
  then show ?case by simp
next
  case (Cons p bs)
  obtain bid b where p: "p = (bid, b)" by (cases p)
  show ?case
    by (auto simp: p makeBundle_def Cons.IH split: sum.splits prod.splits)
qed

lemma remaining_loop_lists:
  "remaining_loop sha256 S bl len n data =
     (case remaining_lists S bl len n of (L, open_list) \<Rightarrow> (open_list, fold (createBundle sha256) L data))"
proof (induction S arbitrary: bl len n data)
  case Nil
  then show ?case by simp
next
  case (Cons p S)
  obtain block result where p: "p = (block, result)" by (cases p)
  show ?case
    by (auto simp: p Let_def Cons.IH split: prod.splits)
qed

lemma buildBundles_lists:
  "buildBundles sha256 old data0 S0 =
     (case created_lists old S0 of
        Inl e \<Rightarrow> Inl e
      | Inr L \<Rightarrow> Inr (fold (createBundle sha256) L data0))"
  by (auto simp: buildBundles_def created_lists_def old_bundles_loop_lists remaining_loop_lists
      split: sum.splits prod.splits)

lemma hashes_of_simps [simp]:
  "hashes_of [] = []" "hashes_of (bl # L) = map hash bl @ hashes_of L"
  "hashes_of (L @ L') = hashes_of L @ hashes_of L'"
  by (simp_all add: hashes_of_def)

lemma canMakeBundle_iff: "canMakeBundle S b \<longleftrightarrow> (\<forall>m \<in> set b. map_of S (hash m) \<noteq> None)"
  by (induction b) auto

lemma relaid_cong:
  "(\<And>m. m \<in> set b \<Longrightarrow> map_of S (hash m) = map_of S' (hash m)) \<Longrightarrow>
   relaid S b len = relaid S' b len"
  by (induction b arbitrary: len) (auto split: option.splits)

lemma map_hash_relaid:
  "(\<And>m. m \<in> set b \<Longrightarrow> map_of S (hash m) \<noteq> None) \<Longrightarrow> map hash (relaid S b len) = map hash b"
  by (induction b arbitrary: len) (auto split: option.splits)

lemma delete_eq_filter: "AList.delete k S = filter (\<lambda>p. fst p \<noteq> k) S"
  by (induction S) auto

lemma makeBundle_loop_ok:
  "(\<And>m. m \<in> set b \<Longrightarrow> map_of S (hash m) \<noteq> None) \<Longrightarrow> distinct (map hash b) \<Longrightarrow>
   makeBundle_loop b acc len S =
     Inr (acc @ relaid S b len, filter (\<lambda>p. fst p \<notin> hash ` set b) S)"
proof (induction b arbitrary: acc len S)
  case Nil
  then show ?case by simp
next
  case (Cons m ms)
  from Cons.prems(1) [of m] obtain result where r: "map_of S (hash m) = Some result" by auto
  let ?S1 = "AList.delete (hash m) S"
  have other: "map_of ?S1 (hash m') = map_of S (hash m')" if "m' \<in> set ms" for m'
  proof -
    from that have "hash m' \<in> hash ` set ms" by simp
    with Cons.prems(2) have "hash m' \<noteq> hash m" by auto
    then show ?thesis by (simp add: delete_conv')
  qed
  have p1: "\<And>m'. m' \<in> set ms \<Longrightarrow> map_of ?S1 (hash m') \<noteq> None"
    using other Cons.prems(1) by simp
  have p2: "distinct (map hash ms)" using Cons.prems(2) by simp
  have rl: "relaid ?S1 ms (len + length result) = relaid S ms (len + length result)"
    by (rule relaid_cong) (rule other)
  have flt: "filter (\<lambda>p. fst p \<notin> hash ` set ms) ?S1 = filter (\<lambda>p. fst p \<notin> hash ` set (m # ms)) S"
    by (auto simp: delete_eq_filter intro: filter_cong)
  show ?case
    using Cons.IH [OF p1 p2, of "acc @ [\<lparr>hash = hash m, length_bytes = length result, blockOffset = len\<rparr>]"
        "len + length result"]
    by (simp add: r rl flt)
qed

lemma old_lists_ok:
  "distinct (map fst S) \<Longrightarrow> \<forall>p \<in> set bs. distinct (map hash (snd p)) \<Longrightarrow>
   \<exists>L S'. old_lists bs S = Inr (L, S') \<and> distinct (hashes_of L) \<and>
          S' = filter (\<lambda>p. fst p \<notin> set (hashes_of L)) S \<and> set (hashes_of L) \<subseteq> fst ` set S"
proof (induction bs arbitrary: S)
  case Nil
  then show ?case by simp
next
  case (Cons p bs)
  obtain bid b where p: "p = (bid, b)" by (cases p)
  have db: "distinct (map hash b)" using Cons.prems(2) p by simp
  have rest: "\<forall>p \<in> set bs. distinct (map hash (snd p))" using Cons.prems(2) by simp
  show ?case
  proof (cases "canMakeBundle S b")
    case False
    with Cons.IH [OF Cons.prems(1) rest] show ?thesis by (simp add: p)
  next
    case True
    then have present: "\<And>m. m \<in> set b \<Longrightarrow> map_of S (hash m) \<noteq> None"
      by (simp add: canMakeBundle_iff)
    let ?S1 = "filter (\<lambda>p. fst p \<notin> hash ` set b) S"
    have mk: "makeBundle_loop b [] 0 S = Inr (relaid S b 0, ?S1)"
      using makeBundle_loop_ok [OF present db, of "[]" 0] by simp
    have d1: "distinct (map fst ?S1)" using Cons.prems(1) by (simp add: distinct_map_filter)
    from Cons.IH [OF d1 rest] obtain L S' where
      L: "old_lists bs ?S1 = Inr (L, S')" "distinct (hashes_of L)"
         "S' = filter (\<lambda>p. fst p \<notin> set (hashes_of L)) ?S1" "set (hashes_of L) \<subseteq> fst ` set ?S1"
      by blast
    have hb: "map hash (relaid S b 0) = map hash b" by (rule map_hash_relaid) (rule present)
    have sub: "hash ` set b \<subseteq> fst ` set S"
      using present by (auto simp: map_of_eq_None_iff)
    have res: "old_lists (p # bs) S = Inr (relaid S b 0 # L, S')"
      using True mk L(1) by (simp add: p)
    have disj: "hash ` set b \<inter> set (hashes_of L) = {}"
    proof -
      have "fst ` set ?S1 \<inter> hash ` set b = {}" by auto
      with L(4) show ?thesis by blast
    qed
    have dist: "distinct (hashes_of (relaid S b 0 # L))"
      using db L(2) disj by (simp add: hb)
    have flt: "S' = filter (\<lambda>p. fst p \<notin> set (hashes_of (relaid S b 0 # L))) S"
      unfolding L(3) by (auto simp: hb intro: filter_cong)
    have sub': "set (hashes_of (relaid S b 0 # L)) \<subseteq> fst ` set S"
      using sub L(4) by (auto simp: hb)
    from res dist flt sub' show ?thesis by blast
  qed
qed

lemma remaining_lists_hashes:
  "remaining_lists S bl len n = (L, open_list) \<Longrightarrow>
   hashes_of L @ map hash open_list = map hash bl @ map fst S"
proof (induction S arbitrary: bl len n L open_list)
  case Nil
  then show ?case by simp
next
  case (Cons p S)
  obtain block result where p: "p = (block, result)" by (cases p)
  show ?case
  proof (cases "n = 59")
    case True
    obtain L' o' where r: "remaining_lists S [] 0 0 = (L', o')" by (cases "remaining_lists S [] 0 0")
    from Cons.IH [OF r] Cons.prems True r show ?thesis by (auto simp: p Let_def)
  next
    case False
    with Cons.prems have
      "remaining_lists S (bl @ [\<lparr>hash = block, length_bytes = length result, blockOffset = len\<rparr>])
         (len + length result) (n + 1) = (L, open_list)"
      by (simp add: p Let_def)
    from Cons.IH [OF this] show ?thesis by (simp add: p)
  qed
qed

lemma created_lists_ok:
  assumes "distinct (map fst S0)" and "\<forall>p \<in> set (bundles old). distinct (map hash (snd p))"
  shows "\<exists>L. created_lists old S0 = Inr L \<and> distinct (hashes_of L) \<and>
             set (hashes_of L) = fst ` set S0"
proof -
  from old_lists_ok [OF assms] obtain L1 S1 where
    L1: "old_lists (bundles old) S0 = Inr (L1, S1)" "distinct (hashes_of L1)"
        "S1 = filter (\<lambda>p. fst p \<notin> set (hashes_of L1)) S0" "set (hashes_of L1) \<subseteq> fst ` set S0"
    by blast
  obtain L2 op where r: "remaining_lists S1 [] 0 0 = (L2, op)" by (cases "remaining_lists S1 [] 0 0")
  let ?tail = "L2 @ (if length op > 0 then [op] else [])"
  have th: "hashes_of ?tail = map fst S1"
    using remaining_lists_hashes [OF r] by auto
  let ?L = "L1 @ (if length S1 > 0 then ?tail else [])"
  have cl: "created_lists old S0 = Inr ?L"
    using L1(1) r by (cases S1) (auto simp: created_lists_def)
  have hL: "hashes_of ?L = hashes_of L1 @ map fst S1"
    using th by (cases S1) auto
  have dS1: "distinct (map fst S1)" using assms(1) L1(3) by (simp add: distinct_map_filter)
  have disj: "set (hashes_of L1) \<inter> set (map fst S1) = {}" using L1(3) by auto
  have d: "distinct (hashes_of ?L)" unfolding hL using L1(2) dS1 disj by simp
  have s: "set (hashes_of ?L) = fst ` set S0" unfolding hL using L1(3,4) by auto
  from cl d s show ?thesis by blast
qed

lemma hashes_of_unique:
  "distinct (hashes_of L) \<Longrightarrow> bl \<in> set L \<Longrightarrow> bl' \<in> set L \<Longrightarrow>
   h \<in> hash ` set bl \<Longrightarrow> h \<in> hash ` set bl' \<Longrightarrow> bl = bl'"
proof (induction L)
  case Nil
  then show ?case by simp
next
  case (Cons x L)
  have disj: "hash ` set x \<inter> set (hashes_of L) = {}" and dL: "distinct (hashes_of L)"
    using Cons.prems(1) by auto
  have inL: "h \<in> set (hashes_of L)" if "b \<in> set L" "h \<in> hash ` set b" for b
    using that by (auto simp: hashes_of_def)
  show ?case
  proof (cases "bl = x")
    case True
    show ?thesis
    proof (cases "bl' = x")
      case True
      with \<open>bl = x\<close> show ?thesis by simp
    next
      case False
      with Cons.prems(3) have "bl' \<in> set L" by simp
      from inL [OF this Cons.prems(5)] Cons.prems(4) True disj show ?thesis by auto
    qed
  next
    case False
    with Cons.prems(2) have b: "bl \<in> set L" by simp
    show ?thesis
    proof (cases "bl' = x")
      case True
      from inL [OF b Cons.prems(4)] Cons.prems(5) True disj show ?thesis by auto
    next
      case False
      with Cons.prems(3) have "bl' \<in> set L" by simp
      from Cons.IH [OF dL b this Cons.prems(4,5)] show ?thesis .
    qed
  qed
qed

lemma map_of_createBundle:
  "map_of (createBundle sha256 bl data) k =
     (if k = getBundleId sha256 bl then Some bl else map_of data k)"
  by (simp add: createBundle_def update_conv')

lemma fold_createBundle_sound:
  "map_of (fold (createBundle sha256) L data) k = Some bl \<Longrightarrow>
   (bl \<in> set L \<and> getBundleId sha256 bl = k) \<or> map_of data k = Some bl"
  by (induction L arbitrary: data rule: rev_induct)
     (auto simp: map_of_createBundle split: if_splits)

lemma fold_createBundle_complete:
  "inj_on (getBundleId sha256) (set L) \<Longrightarrow> bl \<in> set L \<Longrightarrow>
   map_of (fold (createBundle sha256) L data) (getBundleId sha256 bl) = Some bl"
proof (induction L arbitrary: data rule: rev_induct)
  case Nil
  then show ?case by simp
next
  case (snoc x L)
  have inj: "inj_on (getBundleId sha256) (set L)" using snoc.prems(1) by (simp add: inj_on_def)
  show ?case
  proof (cases "bl = x")
    case True
    then show ?thesis by (simp add: map_of_createBundle)
  next
    case False
    with snoc.prems(2) have b: "bl \<in> set L" by simp
    have "getBundleId sha256 bl \<noteq> getBundleId sha256 x"
      using snoc.prems(1) b False by (auto simp: inj_on_def)
    with snoc.IH [OF inj b] show ?thesis by (simp add: map_of_createBundle)
  qed
qed

lemma distinct_fold_createBundle:
  "distinct (map fst data) \<Longrightarrow> distinct (map fst (fold (createBundle sha256) L data))"
  by (induction L arbitrary: data) (auto simp: createBundle_def distinct_update)

lemma set_update_subset: "set (AList.update k v al) \<subseteq> insert (k, v) (set al)"
  by (induction al) auto

lemma processFile_loop_props:
  "processFile_loop chunks u S fh = (u', S', fh') \<Longrightarrow>
   fh' = fh @ map fst chunks \<and> fst ` set S' = fst ` set S \<union> fst ` set chunks \<and>
   (distinct (map fst S) \<longrightarrow> distinct (map fst S'))"
proof (induction chunks arbitrary: u S fh)
  case Nil
  then show ?case by simp
next
  case (Cons c chunks)
  obtain h d where c: "c = (h, d)" by (cases c)
  from Cons.prems have
    "processFile_loop chunks (u @ [d]) (AList.update h d S) (fh @ [h]) = (u', S', fh')"
    by (simp add: c)
  from Cons.IH [OF this] show ?case
    by (auto simp: c dom_update distinct_update)
qed

lemma processDir_loop_props:
  "processDir_loop sha256 src (u, data, S) = (u', data', S') \<Longrightarrow> distinct (map fst S) \<Longrightarrow>
   \<forall>e \<in> set data. set (blocks (snd e)) \<subseteq> fst ` set S \<Longrightarrow>
   distinct (map fst S') \<and> (\<forall>e \<in> set data'. set (blocks (snd e)) \<subseteq> fst ` set S') \<and>
   fst ` set S' = fst ` set S \<union> (\<Union>f \<in> set src. fst ` set (snd f)) \<and>
   fst ` set data' = fst ` set data \<union> fst ` set src"
proof (induction src arbitrary: u data S)
  case Nil
  then show ?case by simp
next
  case (Cons f src)
  obtain relPath chunks where f: "f = (relPath, chunks)" by (cases f)
  obtain u1 S1 fh where pf: "processFile_loop chunks u S [] = (u1, S1, fh)"
    by (cases "processFile_loop chunks u S []") auto
  note pfp = processFile_loop_props [OF pf]
  have fh: "fh = map fst chunks" using pfp [THEN conjunct1] by simp
  have k1: "fst ` set S1 = fst ` set S \<union> fst ` set chunks"
    by (rule pfp [THEN conjunct2, THEN conjunct1])
  have d1: "distinct (map fst S1)"
    using pfp [THEN conjunct2, THEN conjunct2] Cons.prems(2) by (rule mp)
  let ?data1 = "AList.update relPath \<lparr>file_hash = sha256 (concat fh), blocks = fh\<rparr> data"
  have step: "processDir_loop sha256 src (u1, ?data1, S1) = (u', data', S')"
    using Cons.prems(1) by (simp add: f pf)
  have inv1: "\<forall>e \<in> set ?data1. set (blocks (snd e)) \<subseteq> fst ` set S1"
  proof
    fix e assume "e \<in> set ?data1"
    then have "e = (relPath, \<lparr>file_hash = sha256 (concat fh), blocks = fh\<rparr>) \<or> e \<in> set data"
      using set_update_subset [of relPath _ data] by blast
    then show "set (blocks (snd e)) \<subseteq> fst ` set S1"
      using Cons.prems(3) k1 fh by auto
  qed
  note IH = Cons.IH [OF step d1 inv1]
  have r1: "distinct (map fst S')" by (rule IH [THEN conjunct1])
  have r2: "\<forall>e \<in> set data'. set (blocks (snd e)) \<subseteq> fst ` set S'"
    by (rule IH [THEN conjunct2, THEN conjunct1])
  have r3: "fst ` set S' = fst ` set S1 \<union> (\<Union>f \<in> set src. fst ` set (snd f))"
    by (rule IH [THEN conjunct2, THEN conjunct2, THEN conjunct1])
  have r4: "fst ` set data' = fst ` set ?data1 \<union> fst ` set src"
    by (rule IH [THEN conjunct2, THEN conjunct2, THEN conjunct2])
  have r3': "fst ` set S' = fst ` set S \<union> (\<Union>f \<in> set (f # src). fst ` set (snd f))"
    unfolding r3 k1 by (auto simp: f)
  have r4': "fst ` set data' = fst ` set data \<union> fst ` set (f # src)"
    unfolding r4 by (auto simp: f dom_update)
  from r1 r2 r3' r4' show ?case by blast
qed

lemma compress_fold_keys:
  "map fst (fold (\<lambda>block bs.
             case map_of bs block of
               None \<Rightarrow> bs
             | Some blockBinary \<Rightarrow> AList.update block (g blockBinary) bs) ks S) = map fst S"
proof (induction ks arbitrary: S)
  case Nil
  then show ?case by simp
next
  case (Cons k ks)
  show ?case
  proof (cases "map_of S k")
    case None
    then show ?thesis using Cons.IH [of S] by simp
  next
    case (Some v)
    then have "k \<in> set (map fst S)" by (metis map_of_eq_None_iff option.distinct(1) set_map)
    then have "map fst (AList.update k (g v) S) = map fst S" by (simp add: update_keys)
    then show ?thesis using Some Cons.IH [of "AList.update k (g v) S"] by simp
  qed
qed

lemma compress_blocks_keys: "map fst (compress_blocks compressor S) = map fst S"
  unfolding compress_blocks_def by (rule compress_fold_keys)

lemma create_patch_eq:
  assumes "processDir_loop sha256 source ([], [], []) = (u, data, S)"
  shows "create_patch sha256 source compressor old =
     (if data = [] \<or> S = [] then Inl ValueError
      else (case buildBundles sha256 old [] (compress_blocks compressor S) of
              Inl e \<Rightarrow> Inl e
            | Inr bundle_data \<Rightarrow> Inr \<lparr>files = sort_key fst data, bundles = bundle_data\<rparr>))"
proof -
  have "sort_key fst data = [] \<longleftrightarrow> data = []" by (metis length_0_conv length_sort)
  then show ?thesis by (simp add: create_patch_def assms Let_def)
qed

lemma map_of_filter_keys:
  "k \<notin> X \<Longrightarrow> map_of (filter (\<lambda>p. fst p \<notin> X) S) k = map_of S k"
  by (induction S) auto

lemma old_lists_reuses:
  "old_lists bs S = Inr (L, S') \<Longrightarrow> distinct (concat (map (\<lambda>p. map hash (snd p)) bs)) \<Longrightarrow>
   (idB, B) \<in> set bs \<Longrightarrow> \<forall>m \<in> set B. map_of S (hash m) \<noteq> None \<Longrightarrow>
   relaid S B 0 \<in> set L"
proof (induction bs arbitrary: S L)
  case Nil
  then show ?case by simp
next
  case (Cons p bs)
  obtain i b where p: "p = (i, b)" by (cases p)
  have db: "distinct (map hash b)" and drest: "distinct (concat (map (\<lambda>p. map hash (snd p)) bs))"
    and disj: "\<And>q. q \<in> set bs \<Longrightarrow> hash ` set b \<inter> hash ` set (snd q) = {}"
    using Cons.prems(2) by (auto simp: p)
  show ?case
  proof (cases "canMakeBundle S b")
    case False
    have "(idB, B) \<noteq> p"
    proof
      assume "(idB, B) = p"
      then have "B = b" by (simp add: p)
      with Cons.prems(4) False show False by (simp add: canMakeBundle_iff)
    qed
    with Cons.prems(3) have inb: "(idB, B) \<in> set bs" by simp
    from Cons.prems(1) False have "old_lists bs S = Inr (L, S')" by (simp add: p)
    from Cons.IH [OF this drest inb Cons.prems(4)] show ?thesis .
  next
    case True
    then have present: "\<And>m. m \<in> set b \<Longrightarrow> map_of S (hash m) \<noteq> None"
      by (simp add: canMakeBundle_iff)
    let ?S1 = "filter (\<lambda>p. fst p \<notin> hash ` set b) S"
    have mk: "makeBundle_loop b [] 0 S = Inr (relaid S b 0, ?S1)"
      using makeBundle_loop_ok [OF present db, of "[]" 0] by simp
    from Cons.prems(1) True mk obtain L' where
      L': "old_lists bs ?S1 = Inr (L', S')" "L = relaid S b 0 # L'"
      by (auto simp: p split: sum.splits)
    show ?thesis
    proof (cases "(idB, B) = p")
      case True
      then show ?thesis by (simp add: p L'(2))
    next
      case False
      with Cons.prems(3) have inb: "(idB, B) \<in> set bs" by simp
      from disj [OF inb] have nb: "\<And>m. m \<in> set B \<Longrightarrow> hash m \<notin> hash ` set b" by auto
      have same: "\<And>m. m \<in> set B \<Longrightarrow> map_of ?S1 (hash m) = map_of S (hash m)"
        by (rule map_of_filter_keys) (rule nb)
      then have pres1: "\<forall>m \<in> set B. map_of ?S1 (hash m) \<noteq> None" using Cons.prems(4) by simp
      have "relaid ?S1 B 0 = relaid S B 0" by (rule relaid_cong) (rule same)
      with Cons.IH [OF L'(1) drest inb pres1] show ?thesis by (simp add: L'(2))
    qed
  qed
qed

lemma distinct_concat_each:
  "distinct (concat (map (\<lambda>p. map hash (snd p)) bs)) \<Longrightarrow> \<forall>p \<in> set bs. distinct (map hash (snd p))"
  by (induction bs) auto

lemma example_created:
  "created_lists example_prior (producer_block_set (\<lambda>s. s) example_source None) =
     Inr [example_bundle,
          [\<lparr>hash = ''bb'', length_bytes = 1, blockOffset = 0\<rparr>,
           \<lparr>hash = ''cc'', length_bytes = 1, blockOffset = 1\<rparr>]]"
  by code_simp

lemma example_ids_differ:
  "getBundleId (\<lambda>s. s) example_bundle \<noteq>
   getBundleId (\<lambda>s. s) [\<lparr>hash = ''bb'', length_bytes = 1, blockOffset = 0\<rparr>,
                           \<lparr>hash = ''cc'', length_bytes = 1, blockOffset = 1\<rparr>]"
  by code_simp

lemma example_ids_inj:
  "\<forall>L. created_lists example_prior (producer_block_set (\<lambda>s. s) example_source None) = Inr L
       \<longrightarrow> inj_on (getBundleId (\<lambda>s. s)) (set L)"
  using example_ids_differ by (auto simp: example_created inj_on_def)

lemma example_prior_partition:
  "distinct (concat (map (\<lambda>p. map hash (snd p)) (bundles example_prior)))"
  by (simp add: example_prior_def example_bundle_def)

lemma example_source_nonempty: "\<exists>f \<in> set example_source. snd f \<noteq> []"
  by (simp add: example_source_def)

subsection \<open>C3: the bundles of a produced manifest partition its blocks\<close>

text \<open>
  C3. Take a run of the producer in a fresh interpreter, over a source tree with at least
  one block, against a prior manifest none of whose bundles lists a block hash twice (as
  is the case when its bundles partition their members). SHA-256 is taken not to collide
  on the renderings of the member maps this run creates. Then \<open>create_patch\<close> returns a
  manifest, its bundle map has distinct ids, and every block hash that a file record
  refers to is a member of exactly one bundle of that map.
\<close>

theorem producer_partition:
  assumes prior: "\<forall>p \<in> set (bundles old). distinct (map hash (snd p))"
    and ids: "\<forall>L. created_lists old (producer_block_set sha256 source compressor) = Inr L
                \<longrightarrow> inj_on (getBundleId sha256) (set L)"
    and nonempty: "\<exists>f \<in> set source. snd f \<noteq> []"
  shows "\<exists>m. create_patch sha256 source compressor old = Inr m \<and>
           distinct (map fst (bundles m)) \<and>
           (\<forall>f \<in> set (files m). \<forall>h \<in> set (blocks (snd f)).
              \<exists>!bundle_id. \<exists>bl. map_of (bundles m) bundle_id = Some bl \<and> h \<in> hash ` set bl)"
proof -
  obtain u data S where pd: "processDir_loop sha256 source ([], [], []) = (u, data, S)"
    by (cases "processDir_loop sha256 source ([], [], [])") auto
  have "distinct (map fst S) \<and> (\<forall>e \<in> set data. set (blocks (snd e)) \<subseteq> fst ` set S) \<and>
        fst ` set S = fst ` set ([] :: block_set) \<union> (\<Union>f \<in> set source. fst ` set (snd f)) \<and>
        fst ` set data = fst ` set ([] :: (string \<times> file_record) list) \<union> fst ` set source"
    by (rule processDir_loop_props [OF pd]) simp_all
  note inv = this
  have dS: "distinct (map fst S)" by (rule inv [THEN conjunct1])
  have refs: "\<forall>e \<in> set data. set (blocks (snd e)) \<subseteq> fst ` set S"
    by (rule inv [THEN conjunct2, THEN conjunct1])
  have kS': "fst ` set S = fst ` set ([] :: block_set) \<union> (\<Union>f \<in> set source. fst ` set (snd f))"
    by (rule inv [THEN conjunct2, THEN conjunct2, THEN conjunct1])
  have kD': "fst ` set data = fst ` set ([] :: (string \<times> file_record) list) \<union> fst ` set source"
    by (rule inv [THEN conjunct2, THEN conjunct2, THEN conjunct2])
  have kS: "fst ` set S = (\<Union>f \<in> set source. fst ` set (snd f))" using kS' by simp
  have kD: "fst ` set data = fst ` set source" using kD' by simp
  from nonempty obtain f c where "f \<in> set source" "c \<in> set (snd f)" by (fastforce simp: neq_Nil_conv)
  then have "fst c \<in> fst ` set S" and "fst f \<in> fst ` set data" unfolding kS kD by auto
  then have ne: "S \<noteq> []" "data \<noteq> []" by auto
  let ?S0 = "producer_block_set sha256 source compressor"
  have S0: "map fst ?S0 = map fst S" by (simp add: producer_block_set_def pd compress_blocks_keys)
  then have dS0: "distinct (map fst ?S0)" and kS0: "fst ` set ?S0 = fst ` set S"
    using dS by (simp, metis list.set_map)
  from created_lists_ok [OF dS0 prior] obtain L where
    L: "created_lists old ?S0 = Inr L" "distinct (hashes_of L)" "set (hashes_of L) = fst ` set ?S0"
    by blast
  from ids L(1) have inj: "inj_on (getBundleId sha256) (set L)" by blast
  let ?out = "fold (createBundle sha256) L []"
  let ?m = "\<lparr>files = sort_key fst data, bundles = ?out\<rparr>"
  have cp: "create_patch sha256 source compressor old = Inr ?m"
    using ne by (simp add: create_patch_eq [OF pd] buildBundles_lists L(1) [unfolded producer_block_set_def pd, simplified])
  have dk: "distinct (map fst (bundles ?m))" by (simp add: distinct_fold_createBundle)
  have part: "\<exists>!bundle_id. \<exists>bl. map_of ?out bundle_id = Some bl \<and> h \<in> hash ` set bl"
    if f: "f \<in> set (files ?m)" and h: "h \<in> set (blocks (snd f))" for f h
  proof -
    from f have "f \<in> set data" by simp
    with refs h have "h \<in> fst ` set S" by blast
    then have "h \<in> set (hashes_of L)" using L(3) kS0 by simp
    then obtain bl where bl: "bl \<in> set L" "h \<in> hash ` set bl" by (auto simp: hashes_of_def)
    show ?thesis
    proof (rule ex1I [of _ "getBundleId sha256 bl"])
      show "\<exists>bl'. map_of ?out (getBundleId sha256 bl) = Some bl' \<and> h \<in> hash ` set bl'"
        using fold_createBundle_complete [OF inj bl(1), of "[]"] bl(2) by blast
    next
      fix k assume "\<exists>bl'. map_of ?out k = Some bl' \<and> h \<in> hash ` set bl'"
      then obtain bl' where b': "map_of ?out k = Some bl'" "h \<in> hash ` set bl'" by blast
      from fold_createBundle_sound [OF b'(1)] have in': "bl' \<in> set L" and k: "getBundleId sha256 bl' = k"
        by auto
      from hashes_of_unique [OF L(2) in' bl(1) b'(2) bl(2)] k
      show "k = getBundleId sha256 bl" by simp
    qed
  qed
  from cp dk part show ?thesis by (intro exI [of _ ?m]) simp
qed

theorem producer_partition_witness:
  "\<exists>m. create_patch (\<lambda>s. s) example_source None example_prior = Inr m \<and>
        map snd (bundles m) =
          [example_bundle,
           [\<lparr>hash = ''bb'', length_bytes = 1, blockOffset = 0\<rparr>,
            \<lparr>hash = ''cc'', length_bytes = 1, blockOffset = 1\<rparr>]]"
proof -
  have h1: "\<forall>p \<in> set (bundles example_prior). distinct (map hash (snd p))"
    by (rule distinct_concat_each [OF example_prior_partition])
  from producer_partition [OF h1 example_ids_inj example_source_nonempty]
  obtain m where m: "create_patch (\<lambda>s. s) example_source None example_prior = Inr m" by blast
  have "(case create_patch (\<lambda>s. s) example_source None example_prior of
           Inl e \<Rightarrow> [] | Inr m \<Rightarrow> map snd (bundles m)) =
        [example_bundle,
         [\<lparr>hash = ''bb'', length_bytes = 1, blockOffset = 0\<rparr>,
          \<lparr>hash = ''cc'', length_bytes = 1, blockOffset = 1\<rparr>]]"
    by code_simp
  with m show ?thesis by simp
qed

subsection \<open>C5: reuse of a prior bundle\<close>

text \<open>
  C5 says that a bundle \<open>B\<close> of the prior manifest all of whose block hashes are in the
  new block set comes back with \<open>B\<close>'s id. The id is the digest of the rendered member
  map, and \<open>makeBundle\<close> renders the lengths of the payloads in the new block set. Here
  the prior manifest was made when the payload of block \<open>aa\<close> took 1 byte (compressed),
  the new run stores it in 2 bytes: the new bundle map has a bundle with \<open>B\<close>'s hash
  sequence, but no bundle under \<open>B\<close>'s id. (The digest is the identity here, so that the
  two ids are the two renderings.)
\<close>

theorem reused_bundle_changes_id:
  "(getBundleId (\<lambda>s. s) compressed_bundle, compressed_bundle) \<in> set (bundles compressed_prior) \<and>
   list_all (\<lambda>m. map_of (producer_block_set (\<lambda>s. s) example_source None) (hash m) \<noteq> None)
     compressed_bundle \<and>
   (case create_patch (\<lambda>s. s) example_source None compressed_prior of
      Inl e \<Rightarrow> False
    | Inr V2 \<Rightarrow>
        map_of (bundles V2) (getBundleId (\<lambda>s. s) compressed_bundle) = None \<and>
        map (\<lambda>p. map hash (snd p)) (bundles V2) = [[''aa''], [''bb'', ''cc'']])"
  by code_simp

text \<open>
  A prior bundle is tested against the blocks that no earlier reused bundle has taken:
  of two prior bundles that share the block \<open>bb\<close>, both with all blocks in the new block
  set, only the first comes back; the hash sequence \<open>bb, cc\<close> of the second is in no
  bundle of the new manifest.
\<close>

lemma overlapping_prior_bundle_is_not_reused:
  "(case create_patch (\<lambda>s. s) example_source None overlapping_prior of
      Inl e \<Rightarrow> False
    | Inr V2 \<Rightarrow> map (\<lambda>p. map hash (snd p)) (bundles V2) = [[''aa'', ''bb''], [''cc'']])"
  by code_simp

text \<open>
  C5, amended. Let V2 be produced (fresh interpreter, source tree with at least one block)
  with V1 as prior, where no block hash occurs twice among the members of V1's bundles,
  and let SHA-256 not collide on the renderings of the member maps this run creates. If
  every block hash of a bundle \<open>B\<close> of V1 is in V2's block set, then V2's bundle map holds,
  under the digest of its rendering, the member map \<open>B'\<close> that has \<open>B\<close>'s ordered hash
  sequence, the lengths of the payloads in V2's block set and their running sums as
  offsets. When \<open>B'\<close> is \<open>B\<close> (the lengths and offsets recorded in V1 are those of V2's
  payloads) and \<open>B\<close>'s id in V1 is the digest of its rendering, V2's bundle map holds \<open>B\<close>
  under \<open>B\<close>'s id.
\<close>

theorem bundle_reuse:
  assumes part: "distinct (concat (map (\<lambda>p. map hash (snd p)) (bundles V1)))"
    and B: "(idB, B) \<in> set (bundles V1)"
    and surv: "\<forall>m \<in> set B. map_of (producer_block_set sha256 source compressor) (hash m) \<noteq> None"
    and ids: "\<forall>L. created_lists V1 (producer_block_set sha256 source compressor) = Inr L
                \<longrightarrow> inj_on (getBundleId sha256) (set L)"
    and nonempty: "\<exists>f \<in> set source. snd f \<noteq> []"
  shows "\<exists>V2 B'. create_patch sha256 source compressor V1 = Inr V2 \<and>
           B' = relaid (producer_block_set sha256 source compressor) B 0 \<and>
           map_of (bundles V2) (getBundleId sha256 B') = Some B' \<and>
           map hash B' = map hash B \<and>
           (B' = B \<and> idB = getBundleId sha256 B \<longrightarrow> map_of (bundles V2) idB = Some B)"
proof -
  let ?S0 = "producer_block_set sha256 source compressor"
  let ?B' = "relaid ?S0 B 0"
  obtain u data S where pd: "processDir_loop sha256 source ([], [], []) = (u, data, S)"
    by (cases "processDir_loop sha256 source ([], [], [])") auto
  have "distinct (map fst S) \<and> (\<forall>e \<in> set data. set (blocks (snd e)) \<subseteq> fst ` set S) \<and>
        fst ` set S = fst ` set ([] :: block_set) \<union> (\<Union>f \<in> set source. fst ` set (snd f)) \<and>
        fst ` set data = fst ` set ([] :: (string \<times> file_record) list) \<union> fst ` set source"
    by (rule processDir_loop_props [OF pd]) simp_all
  note inv = this
  have dS: "distinct (map fst S)" by (rule inv [THEN conjunct1])
  have S0: "?S0 = compress_blocks compressor S" by (simp add: producer_block_set_def pd)
  have kS0: "map fst ?S0 = map fst S" by (simp add: S0 compress_blocks_keys)
  have dS0: "distinct (map fst ?S0)" using dS by (simp only: kS0)
  have prior: "\<forall>p \<in> set (bundles V1). distinct (map hash (snd p))"
    by (rule distinct_concat_each [OF part])
  from created_lists_ok [OF dS0 prior] obtain L where L: "created_lists V1 ?S0 = Inr L" by blast
  from ids L have inj: "inj_on (getBundleId sha256) (set L)" by blast
  obtain L1 S1 where ol: "old_lists (bundles V1) ?S0 = Inr (L1, S1)"
    using old_lists_ok [OF dS0 prior] by blast
  have inL1: "?B' \<in> set L1" by (rule old_lists_reuses [OF ol part B surv])
  have "set L1 \<subseteq> set L"
    using L ol by (auto simp: created_lists_def split: prod.splits if_splits)
  with inL1 have inL: "?B' \<in> set L" by blast
  have kS: "fst ` set S = (\<Union>f \<in> set source. fst ` set (snd f))"
    using inv [THEN conjunct2, THEN conjunct2, THEN conjunct1] by simp
  have kD: "fst ` set data = fst ` set source"
    using inv [THEN conjunct2, THEN conjunct2, THEN conjunct2] by simp
  from nonempty obtain f c where "f \<in> set source" "c \<in> set (snd f)"
    by (fastforce simp: neq_Nil_conv)
  then have "fst c \<in> fst ` set S" and "fst f \<in> fst ` set data" unfolding kS kD by auto
  then have "S \<noteq> []" "data \<noteq> []" by auto
  then have cp: "create_patch sha256 source compressor V1 =
      Inr \<lparr>files = sort_key fst data, bundles = fold (createBundle sha256) L []\<rparr>"
    using L by (simp add: create_patch_eq [OF pd] buildBundles_lists S0 [symmetric])
  have stored: "map_of (fold (createBundle sha256) L []) (getBundleId sha256 ?B') = Some ?B'"
    by (rule fold_createBundle_complete [OF inj inL])
  have hs: "map hash ?B' = map hash B"
    by (rule map_hash_relaid) (use surv in blast)
  from cp stored hs show ?thesis by auto
qed

theorem bundle_reuse_witness:
  "distinct (concat (map (\<lambda>p. map hash (snd p)) (bundles example_prior))) \<and>
   (getBundleId (\<lambda>s. s) example_bundle, example_bundle) \<in> set (bundles example_prior) \<and>
   (\<exists>V2. create_patch (\<lambda>s. s) example_source None example_prior = Inr V2 \<and>
         map_of (bundles V2) (getBundleId (\<lambda>s. s) example_bundle) = Some example_bundle)"
proof -
  have B: "(getBundleId (\<lambda>s. s) example_bundle, example_bundle) \<in> set (bundles example_prior)"
    by (simp add: example_prior_def)
  have surv: "\<forall>m \<in> set example_bundle.
      map_of (producer_block_set (\<lambda>s. s) example_source None) (hash m) \<noteq> None"
    by code_simp
  have same: "relaid (producer_block_set (\<lambda>s. s) example_source None) example_bundle 0 = example_bundle"
    by code_simp
  from bundle_reuse [OF example_prior_partition B surv example_ids_inj example_source_nonempty] same
  have "\<exists>V2. create_patch (\<lambda>s. s) example_source None example_prior = Inr V2 \<and>
         map_of (bundles V2) (getBundleId (\<lambda>s. s) example_bundle) = Some example_bundle"
    by auto
  with example_prior_partition B show ?thesis by blast
qed

section \<open>The apply operation\<close>

lemma patch_fetch_error:
  assumes "getPatchData (patch_data_path p) (env_url_manifest ev) (env_file_manifest ev) = Inr nb"
    and "get_missing_blocks
           (get_files_to_patch nb (get_local_file_hashes (env_sha256 ev) (w_tree w))
              (is_valid (w_tree w) (w_changelog w)))
           nb
           (scan (env_fastcdc ev)
              (get_files_to_patch nb (get_local_file_hashes (env_sha256 ev) (w_tree w))
                 (is_valid (w_tree w) (w_changelog w))) [])
           {} = Inr missing"
    and "find_bundles_and_blocks_to_fetch nb missing = Inr (to_download, residual)"
    and "fetch (env_http_get ev) (env_read_file ev) (decompressor_of p) (bundle_index_of p)
           (patch_data_path p) to_download (env_iter_order ev residual)
           (scan (env_fastcdc ev)
              (get_files_to_patch nb (get_local_file_hashes (env_sha256 ev) (w_tree w))
                 (is_valid (w_tree w) (w_changelog w))) []) = Inl e"
  shows "patch ev p w = (Some e, w)"
  using assms by (simp add: patch_def Let_def)

lemma fetch_blocks_remote_error:
  "b \<in> set bs \<Longrightarrow> http_get (loc @ ''/blocks/'' @ b) None = Inl e \<Longrightarrow>
   \<exists>e'. fetch_blocks_remote http_get dec loc bs pool = Inl e'"
proof (induction bs arbitrary: pool)
  case Nil
  then show ?case by simp
next
  case (Cons a bs)
  show ?case
  proof (cases "a = b")
    case True
    with Cons.prems(2) show ?thesis by (simp add: util_fetch_def)
  next
    case False
    with Cons.prems have "b \<in> set bs" by simp
    from Cons.IH [OF this Cons.prems(2)] show ?thesis
      by (auto split: sum.splits)
  qed
qed

subsection \<open>C4: a manifest that cannot be fetched\<close>

text \<open>
  C4 says that, for a remote source, a transport error on the fetch of the manifest ends
  the apply with that error, before any file is patched or cleaned and before the
  changelog is saved. \<open>getPatchData\<close> catches \<open>URLError\<close> and returns the empty patch
  data, and \<open>patch\<close> goes on with it: nothing is fetched or patched, the cleaner removes
  every installed file that the empty manifest does not list, and the emptied changelog
  is saved. Here the installation holds the files \<open>a\<close> and \<open>lib/b\<close>; the apply ends
  without an error and leaves an empty tree and an empty changelog file.
\<close>

theorem unreachable_manifest_wipes_installation:
  "patch
     (ev\<lparr>env_url_manifest := Inl URLError, env_iter_order := sorted_list_of_set\<rparr>)
     \<lparr>patch_data_path = ''http://host/patchData'', decompressor_of = None,
      bundle_index_of = build_bundle_index empty_patch_data\<rparr>
     \<lparr>w_tree = [(''a'', \<lparr>readable = True, content = ''x'', mtime = ''1.0''\<rparr>),
                (''lib/b'', \<lparr>readable = True, content = ''yz'', mtime = ''2.0''\<rparr>)],
      w_changelog = [(''a'', \<lparr>size = ''1'', lastMod = ''1.0''\<rparr>),
                     (''lib/b'', \<lparr>size = ''2'', lastMod = ''2.0''\<rparr>)],
      w_changelog_file = Some [(''a'', \<lparr>size = ''1'', lastMod = ''1.0''\<rparr>),
                               (''lib/b'', \<lparr>size = ''2'', lastMod = ''2.0''\<rparr>)]\<rparr>
   = (None, \<lparr>w_tree = [], w_changelog = [], w_changelog_file = Some []\<rparr>)"
  by (simp add: patch_def getPatchData_def isURL_def startswith_def empty_patch_data_def
      get_files_to_patch_def find_bundles_and_blocks_to_fetch_def analyze_bundles_def
      bundles_to_download_def fetch_def cleaner_run_def cleanup_file_def remove_file_def)

end
